theory Spec2Isabelle
  imports Complex_Main
begin

section \<open>Data model of the chat store (store/chatSlice.ts)\<close>

text \<open>
  The slice keeps a list of sessions and the id of the active one. Optional
  TypeScript fields (\<^verbatim>\<open>images?\<close>, \<^verbatim>\<open>animated?\<close>, \<^verbatim>\<open>typed?\<close>, \<^verbatim>\<open>loading?\<close>,
  \<^verbatim>\<open>new?\<close>) are options, \<^verbatim>\<open>None\<close> standing for \<^verbatim>\<open>undefined\<close>; a nullable id is
  an option as well. The two sources of nondeterminism of the reducers,
  \<^verbatim>\<open>nanoid()\<close> and \<^verbatim>\<open>Date.now()\<close>, are arguments of the modelled reducers, one
  argument per call in the source. Strings are lists of characters, one per
  code unit of the JavaScript string; timestamps are integers.
\<close>

datatype Role = User | Model

record ChatImage =
  path :: string
  data :: string

record ChatMessage =
  msg_id :: string
  role :: Role
  content :: string
  images :: "ChatImage list option"
  animated :: "bool option"
  typed :: "bool option"
  msg_createdAt :: int

record Session =
  session_id :: string
  title :: string
  prev_context :: string
  was_context_valid_old :: bool
  is_follow_up_old :: bool
  related_images :: "string list"
  messages :: "ChatMessage list"
  createdAt :: int
  updatedAt :: int
  loading :: "bool option"
  new :: "bool option"

record ChatState =
  sessions :: "Session list"
  activeSessionId :: "string option"

definition DEFAULT_GREETING :: string where
  "DEFAULT_GREETING = ''Hello! I'm ready to help. Ask me anything to start this chat.''"

definition initialState :: ChatState where
  "initialState = \<lparr>sessions = [], activeSessionId = None\<rparr>"

text \<open>\<^verbatim>\<open>createNewSession(title?)\<close>; \<open>nid\<close> is the value of \<^verbatim>\<open>nanoid()\<close>, \<open>now\<close> of \<^verbatim>\<open>Date.now()\<close>.\<close>

definition createNewSession :: "string option \<Rightarrow> string \<Rightarrow> int \<Rightarrow> Session" where
  "createNewSession ttl nid now =
     \<lparr>session_id = nid,
      title = (case ttl of None \<Rightarrow> ''New Chat'' | Some t \<Rightarrow> t),
      prev_context = DEFAULT_GREETING,
      was_context_valid_old = True,
      is_follow_up_old = True,
      related_images = [],
      messages = [],
      createdAt = now,
      updatedAt = now,
      loading = None,
      new = Some True\<rparr>"

text \<open>
  Every reducer that targets a session looks it up with \<^verbatim>\<open>state.sessions.find\<close>,
  which yields the first session with the id, and mutates that one object in
  place. \<open>findSession\<close> is the lookup, \<open>mutateFound\<close> the in-place mutation of
  the first match.
\<close>

definition findSession :: "ChatState \<Rightarrow> string \<Rightarrow> Session option" where
  "findSession st sid = find (\<lambda>s. session_id s = sid) (sessions st)"

fun mutateFound :: "('a \<Rightarrow> bool) \<Rightarrow> ('a \<Rightarrow> 'a) \<Rightarrow> 'a list \<Rightarrow> 'a list" where
  "mutateFound P f [] = []"
| "mutateFound P f (x # xs) = (if P x then f x # xs else x # mutateFound P f xs)"

definition onSession :: "ChatState \<Rightarrow> string \<Rightarrow> (Session \<Rightarrow> Session) \<Rightarrow> ChatState" where
  "onSession st sid f = st\<lparr>sessions := mutateFound (\<lambda>s. session_id s = sid) f (sessions st)\<rparr>"

subsection \<open>The reducers\<close>

text \<open>\<^verbatim>\<open>!state.activeSessionId\<close> is true for \<^verbatim>\<open>null\<close> and for the empty string.\<close>

definition bootstrapFirstSession :: "ChatState \<Rightarrow> string \<Rightarrow> int \<Rightarrow> ChatState" where
  "bootstrapFirstSession st nid now =
     (if (activeSessionId st = None \<or> activeSessionId st = Some []) \<and> length (sessions st) = 0
      then let s = createNewSession (Some ''First Chat'') nid now
           in st\<lparr>sessions := sessions st @ [s], activeSessionId := Some (session_id s)\<rparr>
      else st)"

definition addSession :: "ChatState \<Rightarrow> string option \<Rightarrow> string \<Rightarrow> int \<Rightarrow> ChatState" where
  "addSession st ttl nid now =
     (let s = createNewSession ttl nid now
      in st\<lparr>sessions := s # sessions st, activeSessionId := Some (session_id s)\<rparr>)"

definition switchSession :: "ChatState \<Rightarrow> string \<Rightarrow> ChatState" where
  "switchSession st sid =
     (case findSession st sid of
        Some found \<Rightarrow> st\<lparr>activeSessionId := Some sid\<rparr>
      | None \<Rightarrow> st)"

text \<open>\<^verbatim>\<open>state.sessions[0]?.id ?? null\<close> reads the head of the filtered list.\<close>

definition removeSession :: "ChatState \<Rightarrow> string \<Rightarrow> ChatState" where
  "removeSession st sid =
     (let st1 = st\<lparr>sessions := filter (\<lambda>s. session_id s \<noteq> sid) (sessions st)\<rparr>
      in if activeSessionId st1 = Some sid
         then st1\<lparr>activeSessionId :=
                (case sessions st1 of [] \<Rightarrow> None | s # _ \<Rightarrow> Some (session_id s))\<rparr>
         else st1)"

definition addUserMessage ::
  "ChatState \<Rightarrow> string \<Rightarrow> string \<Rightarrow> ChatImage list option \<Rightarrow> string \<Rightarrow> int \<Rightarrow> int \<Rightarrow> ChatState" where
  "addUserMessage st sid txt imgs nid now1 now2 =
     onSession st sid (\<lambda>s.
       let msg = \<lparr>msg_id = nid, role = User, content = txt,
                  images = Some (case imgs of None \<Rightarrow> [] | Some is \<Rightarrow> is),
                  animated = Some False, typed = None, msg_createdAt = now1\<rparr>
       in s\<lparr>messages := messages s @ [msg], updatedAt := now2\<rparr>)"

definition addModelMessage ::
  "ChatState \<Rightarrow> string \<Rightarrow> string \<Rightarrow> ChatImage list option \<Rightarrow> bool option \<Rightarrow> string \<Rightarrow> int \<Rightarrow> int
     \<Rightarrow> ChatState" where
  "addModelMessage st sid txt imgs ty nid now1 now2 =
     onSession st sid (\<lambda>s.
       let msg = \<lparr>msg_id = nid, role = Model, content = txt,
                  images = Some (case imgs of None \<Rightarrow> [] | Some is \<Rightarrow> is),
                  animated = None, typed = ty, msg_createdAt = now1\<rparr>
       in s\<lparr>messages := messages s @ [msg], updatedAt := now2\<rparr>)"

record SessionMeta =
  meta_prev_context :: "string option"
  meta_was_context_valid_old :: "bool option"
  meta_is_follow_up_old :: "bool option"
  meta_related_images :: "string list option"
  meta_title :: "string option"

definition setSessionMeta :: "ChatState \<Rightarrow> string \<Rightarrow> SessionMeta \<Rightarrow> int \<Rightarrow> ChatState" where
  "setSessionMeta st sid p now =
     onSession st sid (\<lambda>s.
       let s1 = (case meta_prev_context p of None \<Rightarrow> s | Some v \<Rightarrow> s\<lparr>prev_context := v\<rparr>);
           s2 = (case meta_was_context_valid_old p of None \<Rightarrow> s1
                 | Some v \<Rightarrow> s1\<lparr>was_context_valid_old := v\<rparr>);
           s3 = (case meta_is_follow_up_old p of None \<Rightarrow> s2 | Some v \<Rightarrow> s2\<lparr>is_follow_up_old := v\<rparr>);
           s4 = (case meta_related_images p of None \<Rightarrow> s3 | Some v \<Rightarrow> s3\<lparr>related_images := v\<rparr>);
           s5 = (case meta_title p of None \<Rightarrow> s4 | Some v \<Rightarrow> s4\<lparr>title := v\<rparr>)
       in s5\<lparr>updatedAt := now\<rparr>)"

definition setSessionStatus :: "ChatState \<Rightarrow> string \<Rightarrow> int \<Rightarrow> ChatState" where
  "setSessionStatus st sid now =
     onSession st sid (\<lambda>s. s\<lparr>new := Some False, updatedAt := now\<rparr>)"

text \<open>
  \<^verbatim>\<open>indexOf\<close> finds the first occurrence and \<^verbatim>\<open>splice(idx, 1)\<close> deletes it;
  otherwise the path is pushed at the end.
\<close>

definition toggleTaggedImage :: "ChatState \<Rightarrow> string \<Rightarrow> string \<Rightarrow> int \<Rightarrow> ChatState" where
  "toggleTaggedImage st sid p now =
     onSession st sid (\<lambda>s.
       (if p \<in> set (related_images s)
        then s\<lparr>related_images := remove1 p (related_images s)\<rparr>
        else s\<lparr>related_images := related_images s @ [p]\<rparr>)\<lparr>updatedAt := now\<rparr>)"

definition clearTaggedImages :: "ChatState \<Rightarrow> string \<Rightarrow> int \<Rightarrow> ChatState" where
  "clearTaggedImages st sid now =
     onSession st sid (\<lambda>s. s\<lparr>related_images := [], updatedAt := now\<rparr>)"

definition setSessionLoading :: "ChatState \<Rightarrow> string \<Rightarrow> bool \<Rightarrow> int \<Rightarrow> ChatState" where
  "setSessionLoading st sid b now =
     onSession st sid (\<lambda>s. s\<lparr>loading := Some b, updatedAt := now\<rparr>)"

text \<open>
  \<^verbatim>\<open>markMessageTyped\<close> sets the flag of the first message with the id, if there
  is one, and then clears \<^verbatim>\<open>loading\<close> of the session, whether or not the message
  was found.
\<close>

definition markMessageTyped :: "ChatState \<Rightarrow> string \<Rightarrow> string \<Rightarrow> ChatState" where
  "markMessageTyped st sid mid =
     onSession st sid (\<lambda>s.
       s\<lparr>messages := mutateFound (\<lambda>m. msg_id m = mid) (\<lambda>m. m\<lparr>typed := Some True\<rparr>) (messages s),
         loading := Some False\<rparr>)"

definition markMessageAnimated :: "ChatState \<Rightarrow> string \<Rightarrow> string \<Rightarrow> ChatState" where
  "markMessageAnimated st sid mid =
     onSession st sid (\<lambda>s.
       s\<lparr>messages := mutateFound (\<lambda>m. msg_id m = mid) (\<lambda>m. m\<lparr>animated := Some True\<rparr>) (messages s)\<rparr>)"

text \<open>The actions of the slice, each with its payload and the values the environment supplies.\<close>

datatype action =
    BootstrapFirstSession string int
  | AddSession "string option" string int
  | SwitchSession string
  | RemoveSession string
  | AddUserMessage string string "ChatImage list option" string int int
  | AddModelMessage string string "ChatImage list option" "bool option" string int int
  | SetSessionMeta string SessionMeta int
  | SetSessionStatus string int
  | ToggleTaggedImage string string int
  | ClearTaggedImages string int
  | SetSessionLoading string bool int
  | MarkMessageTyped string string
  | MarkMessageAnimated string string

fun reducer :: "ChatState \<Rightarrow> action \<Rightarrow> ChatState" where
  "reducer st (BootstrapFirstSession nid now) = bootstrapFirstSession st nid now"
| "reducer st (AddSession ttl nid now) = addSession st ttl nid now"
| "reducer st (SwitchSession sid) = switchSession st sid"
| "reducer st (RemoveSession sid) = removeSession st sid"
| "reducer st (AddUserMessage sid txt imgs nid now1 now2) = addUserMessage st sid txt imgs nid now1 now2"
| "reducer st (AddModelMessage sid txt imgs ty nid now1 now2) =
     addModelMessage st sid txt imgs ty nid now1 now2"
| "reducer st (SetSessionMeta sid p now) = setSessionMeta st sid p now"
| "reducer st (SetSessionStatus sid now) = setSessionStatus st sid now"
| "reducer st (ToggleTaggedImage sid p now) = toggleTaggedImage st sid p now"
| "reducer st (ClearTaggedImages sid now) = clearTaggedImages st sid now"
| "reducer st (SetSessionLoading sid b now) = setSessionLoading st sid b now"
| "reducer st (MarkMessageTyped sid mid) = markMessageTyped st sid mid"
| "reducer st (MarkMessageAnimated sid mid) = markMessageAnimated st sid mid"

text \<open>A run of the store: the actions are dispatched one after the other.\<close>

definition dispatchAll :: "ChatState \<Rightarrow> action list \<Rightarrow> ChatState" where
  "dispatchAll st acts = foldl reducer st acts"

section \<open>Sending a message (components/ChatApp.tsx)\<close>

text \<open>
  The body of the request posted to the chat endpoint, and the synchronous part
  of \<^verbatim>\<open>sendMessage\<close>, up to the call of \<^verbatim>\<open>fetch\<close>. The function is a closure of
  the render in which it was created. It reads the session, its \<^verbatim>\<open>loading\<close> flag,
  its messages and its tags from \<open>chat\<close>, the state \<^verbatim>\<open>useSelector\<close> returned in that
  render, while its three dispatches act on the live store, \<open>store\<close>. The two
  are the same state when the component has rendered since the last change of
  the store, and differ when the closure is called again before the next
  render. The function returns the store after the dispatches together with
  the request it posts, or the unchanged store and no request when it returns
  early. \<open>nid\<close> is the id \<^verbatim>\<open>nanoid()\<close> gives the user message and \<open>t1\<close> to \<open>t4\<close> are
  the values of the four calls of \<^verbatim>\<open>Date.now()\<close> in the reducers.
\<close>

record ChatRequest =
  req_prev_context :: string
  req_message_history :: "(Role \<times> string) list"
  req_query :: string
  req_was_context_valid_old :: bool
  req_is_follow_up_old :: bool
  req_related_images :: "string list"

text \<open>
  The inner loop of the \<^verbatim>\<open>map\<close> callback: the messages are visited in order, a
  message with a non-empty \<^verbatim>\<open>images\<close> array is searched for an image with the
  path, and the first hit is returned as a copy; the fallback has an empty path.
\<close>

fun resolveTag :: "ChatMessage list \<Rightarrow> string \<Rightarrow> ChatImage" where
  "resolveTag [] p = \<lparr>path = [], data = []\<rparr>"
| "resolveTag (m # ms) p =
     (case images m of
        Some (i # is) \<Rightarrow>
          (case find (\<lambda>img. path img = p) (i # is) of
             Some found \<Rightarrow> \<lparr>path = path found, data = data found\<rparr>
           | None \<Rightarrow> resolveTag ms p)
      | _ \<Rightarrow> resolveTag ms p)"

definition userImages :: "Session \<Rightarrow> ChatImage list" where
  "userImages session =
     (if length (related_images session) > 0
      then map (\<lambda>it. \<lparr>path = path it, data = data it\<rparr>)
             (filter (\<lambda>it. path it \<noteq> [])
                (map (resolveTag (messages session)) (related_images session)))
      else [])"

definition sendMessage ::
  "ChatState \<Rightarrow> ChatState \<Rightarrow> string \<Rightarrow> string \<Rightarrow> string \<Rightarrow> int \<Rightarrow> int \<Rightarrow> int \<Rightarrow> int
     \<Rightarrow> ChatState \<times> ChatRequest option" where
  "sendMessage chat store sessionId txt nid t1 t2 t3 t4 =
     (case findSession chat sessionId of
        None \<Rightarrow> (store, None)
      | Some session \<Rightarrow>
          if loading session = Some True then (store, None)
          else
            let st1 = reducer store (SetSessionLoading sessionId True t1);
                previousMessageHistory = map (\<lambda>m. (role m, content m)) (messages session);
                relatedImages = related_images session;
                st2 = reducer st1 (ClearTaggedImages sessionId t2);
                st3 = reducer st2
                        (AddUserMessage sessionId txt (Some (userImages session)) nid t3 t4);
                payload = \<lparr>req_prev_context = prev_context session,
                           req_message_history = previousMessageHistory,
                           req_query = txt,
                           req_was_context_valid_old = was_context_valid_old session,
                           req_is_follow_up_old = is_follow_up_old session,
                           req_related_images = relatedImages\<rparr>
            in (st3, Some payload))"

section \<open>The reveal scheduler (the \<^verbatim>\<open>useTyping\<close> hook and components/ImageMessage.tsx)\<close>

text \<open>
  The state of one mounted hook: its three React state variables, its refs, the
  local \<^verbatim>\<open>prevTime\<close> of the effect, and the two callbacks it may have pending
  with the browser: the \<^verbatim>\<open>requestAnimationFrame(step)\<close> callback and the
  \<^verbatim>\<open>setTimeout(\<dots>, 300)\<close> callback. Times are real numbers, as is the value of
  \<^verbatim>\<open>Math.random()\<close>, which the environment supplies with every frame.
\<close>

record typing =
  typedText :: string
  isTypingComplete :: bool
  showImages :: bool
  charIndex :: nat
  dispatchedMark :: bool
  prevTime :: real
  frameRequested :: bool
  settleTimer :: bool

text \<open>\<^verbatim>\<open>m.images\<close> read as a list: \<^verbatim>\<open>m.images?.length\<close> is falsy for a missing and for an empty array.\<close>

definition imagesOf :: "ChatMessage \<Rightarrow> ChatImage list" where
  "imagesOf m = (case images m of None \<Rightarrow> [] | Some is \<Rightarrow> is)"

text \<open>\<^verbatim>\<open>const isNew = !isUser && !m.typed\<close>\<close>

definition isNew :: "ChatMessage \<Rightarrow> bool" where
  "isNew m = (role m \<noteq> User \<and> typed m \<noteq> Some True)"

text \<open>
  The initial values of the state variables and refs followed by the first run
  of the effect, at time \<open>now\<close> (\<^verbatim>\<open>performance.now()\<close>): a message that is not new
  is shown in full at once, a new one starts empty with a frame requested.
\<close>

definition mount :: "ChatMessage \<Rightarrow> real \<Rightarrow> typing" where
  "mount m now =
     (if \<not> isNew m
      then \<lparr>typedText = content m, isTypingComplete = True, showImages = (typed m = Some True),
            charIndex = 0, dispatchedMark = False, prevTime = now,
            frameRequested = False, settleTimer = False\<rparr>
      else \<lparr>typedText = [], isTypingComplete = False, showImages = False,
            charIndex = 0, dispatchedMark = False, prevTime = now,
            frameRequested = True, settleTimer = False\<rparr>)"

text \<open>\<^verbatim>\<open>m.content[i]\<close>, which is \<^verbatim>\<open>undefined\<close> outside the string (in particular at \<open>-1\<close>).\<close>

definition charAt :: "string \<Rightarrow> int \<Rightarrow> char option" where
  "charAt s i = (if 0 \<le> i \<and> i < int (length s) then Some (s ! nat i) else None)"

text \<open>The delay before the perturbation, by the \<^verbatim>\<open>if\<close> chain of \<^verbatim>\<open>step\<close>.\<close>

definition baseDelay :: "char option \<Rightarrow> real" where
  "baseDelay currentChar =
     (if currentChar = Some CHR ''.'' \<or> currentChar = Some CHR ''!'' \<or> currentChar = Some CHR ''?''
      then 100
      else if currentChar = Some CHR '','' \<or> currentChar = Some CHR '';'' then 40
      else if currentChar = Some CHR '' '' then 8
      else if currentChar = Some (CHR 0x0A) then 60
      else 12)"

text \<open>\<^verbatim>\<open>dynamicDelay += (Math.random() - 0.5) * dynamicDelay * 0.25\<close>\<close>

definition dynamicDelay :: "char option \<Rightarrow> real \<Rightarrow> real" where
  "dynamicDelay currentChar rnd =
     baseDelay currentChar + (rnd - 0.5) * baseDelay currentChar * 0.25"

text \<open>
  One call of \<^verbatim>\<open>step(time)\<close>, with \<open>rnd\<close> the value of \<^verbatim>\<open>Math.random()\<close>. It either
  requests the next frame or finishes: it then shows the whole content and
  starts the settle timer.
\<close>

definition step :: "ChatMessage \<Rightarrow> typing \<Rightarrow> real \<Rightarrow> real \<Rightarrow> typing" where
  "step m ty time rnd =
     (let currentChar = charAt (content m) (int (charIndex ty) - 1);
          ty1 = (if time - prevTime ty \<ge> dynamicDelay currentChar rnd
                 then ty\<lparr>charIndex := charIndex ty + 1,
                         typedText := take (charIndex ty + 1) (content m),
                         prevTime := time\<rparr>
                 else ty)
      in if charIndex ty1 < length (content m)
         then ty1\<lparr>frameRequested := True\<rparr>
         else ty1\<lparr>typedText := content m, isTypingComplete := True,
                  frameRequested := False, settleTimer := True\<rparr>)"

text \<open>
  The two places that dispatch \<^verbatim>\<open>markMessageTyped\<close> for the message. Each
  returns the new hook state, the actions it dispatches and whether it asks
  for a scroll to the bottom. \<open>atBottom\<close> is \<^verbatim>\<open>isAtBottomRef.current\<close> when the
  timer fires.
\<close>

definition settleCallback ::
  "ChatMessage \<Rightarrow> string \<Rightarrow> bool \<Rightarrow> typing \<Rightarrow> typing \<times> action list \<times> bool" where
  "settleCallback m sessionId atBottom ty =
     (if imagesOf m \<noteq> [] then (ty\<lparr>showImages := True\<rparr>, [], False)
      else if \<not> dispatchedMark ty
      then (ty\<lparr>dispatchedMark := True\<rparr>, [MarkMessageTyped sessionId (msg_id m)], atBottom)
      else (ty, [], False))"

definition onAnimationComplete ::
  "ChatMessage \<Rightarrow> string \<Rightarrow> typing \<Rightarrow> typing \<times> action list \<times> bool" where
  "onAnimationComplete m sessionId ty =
     (if \<not> dispatchedMark ty \<and> typed m \<noteq> Some True \<and> sessionId \<noteq> [] \<and> msg_id m \<noteq> []
      then (ty\<lparr>dispatchedMark := True\<rparr>, [MarkMessageTyped sessionId (msg_id m)], True)
      else (ty, [], False))"

text \<open>
  The animated image grid exists, and so can complete its animation, when
  \<^verbatim>\<open>MessageBubble\<close> renders the image block and \<^verbatim>\<open>ImageMessage\<close> takes its model
  branch.
\<close>

definition imagesAnimating :: "ChatMessage \<Rightarrow> typing \<Rightarrow> bool" where
  "imagesAnimating m ty =
     ((isTypingComplete ty \<or> role m = User) \<and> images m \<noteq> Some []
      \<and> imagesOf m \<noteq> [] \<and> role m \<noteq> User \<and> showImages ty)"

text \<open>
  A run of the scheduler for one mounted message: the hook state, the actions
  dispatched so far and the number of scrolls asked for. The environment
  delivers a frame only while one is requested, fires the settle timer only
  while it is pending, and reports the end of the image animation only while
  the grid exists.
\<close>

record reveal =
  ui :: typing
  dispatched :: "action list"
  scrolls :: nat

datatype event = Frame real real | SettleTimeout bool | AnimationComplete

definition effects :: "reveal \<Rightarrow> typing \<times> action list \<times> bool \<Rightarrow> reveal" where
  "effects w r =
     (case r of (ty, acts, scroll) \<Rightarrow>
        \<lparr>ui = ty, dispatched = dispatched w @ acts,
         scrolls = (if scroll then scrolls w + 1 else scrolls w)\<rparr>)"

fun handle :: "ChatMessage \<Rightarrow> string \<Rightarrow> reveal \<Rightarrow> event \<Rightarrow> reveal" where
  "handle m sessionId w (Frame time rnd) =
     (if frameRequested (ui w) then w\<lparr>ui := step m (ui w) time rnd\<rparr> else w)"
| "handle m sessionId w (SettleTimeout atBottom) =
     (if settleTimer (ui w)
      then effects w (settleCallback m sessionId atBottom ((ui w)\<lparr>settleTimer := False\<rparr>))
      else w)"
| "handle m sessionId w AnimationComplete =
     (if imagesAnimating m (ui w) then effects w (onAnimationComplete m sessionId (ui w)) else w)"

definition mountReveal :: "ChatMessage \<Rightarrow> real \<Rightarrow> reveal" where
  "mountReveal m now = \<lparr>ui = mount m now, dispatched = [], scrolls = 0\<rparr>"

definition runEvents :: "ChatMessage \<Rightarrow> string \<Rightarrow> reveal \<Rightarrow> event list \<Rightarrow> reveal" where
  "runEvents m sessionId w evs = foldl (handle m sessionId) w evs"

section \<open>Auto-follow scrolling (the \<^verbatim>\<open>useAutoScroll\<close> hook and utils/scroll.ts)\<close>

text \<open>
  \<^verbatim>\<open>scrollIntoView(ref)\<close>: nothing happens for a missing element or when the
  content does not overflow; otherwise the element is scrolled to
  \<^verbatim>\<open>top = scrollHeight\<close>. The result is the scroll command issued, if any.
\<close>

record container =
  scrollHeight :: int
  clientHeight :: int

definition scrollIntoView :: "container option \<Rightarrow> int option" where
  "scrollIntoView ref =
     (case ref of
        None \<Rightarrow> None
      | Some element \<Rightarrow>
          if scrollHeight element \<le> clientHeight element then None
          else Some (scrollHeight element))"

text \<open>
  The state of one mounted hook: the ref that mirrors the \<^verbatim>\<open>enabled\<close> prop, the
  local variable \<^verbatim>\<open>timeout\<close> of the effect, and whether the observer is
  connected; and, of the browser, the handles of the timers that are pending
  and the handle the next \<^verbatim>\<open>setTimeout\<close> returns (handles are positive).
\<close>

record autoScroll =
  enabledRef :: bool
  timeout :: "nat option"
  observing :: bool
  timers :: "nat list"
  nextHandle :: nat

definition mountAutoScroll :: "bool \<Rightarrow> bool \<Rightarrow> autoScroll" where
  "mountAutoScroll enabled hasElement =
     \<lparr>enabledRef = enabled, timeout = None, observing = hasElement, timers = [], nextHandle = 1\<rparr>"

text \<open>\<^verbatim>\<open>if (timeout) clearTimeout(timeout)\<close>: a handle that is not pending is ignored.\<close>

definition clearPending :: "autoScroll \<Rightarrow> autoScroll" where
  "clearPending a =
     (case timeout a of
        None \<Rightarrow> a
      | Some h \<Rightarrow> if h \<noteq> 0 then a\<lparr>timers := removeAll h (timers a)\<rparr> else a)"

text \<open>The callback of the \<^verbatim>\<open>ResizeObserver\<close>.\<close>

definition onResize :: "autoScroll \<Rightarrow> autoScroll" where
  "onResize a =
     (if \<not> enabledRef a then a
      else let a1 = clearPending a
           in a1\<lparr>timeout := Some (nextHandle a1),
                  timers := timers a1 @ [nextHandle a1],
                  nextHandle := nextHandle a1 + 1\<rparr>)"

text \<open>The callback of the timer, which reads the ref when it runs.\<close>

definition onTimer :: "autoScroll \<Rightarrow> container option \<Rightarrow> int option" where
  "onTimer a target = (if enabledRef a then scrollIntoView target else None)"

text \<open>
  The events of a mounted hook: the \<^verbatim>\<open>enabled\<close> prop changes, the observed
  element changes size, a timer fires while the target element is as given, the
  hook is unmounted. A run collects the scroll commands issued.
\<close>

datatype scrollEvent =
    EnabledChanged bool
  | Resized
  | TimerFired nat "container option"
  | Unmounted

fun autoScrollStep :: "autoScroll \<times> int list \<Rightarrow> scrollEvent \<Rightarrow> autoScroll \<times> int list" where
  "autoScrollStep (a, cmds) (EnabledChanged b) = (a\<lparr>enabledRef := b\<rparr>, cmds)"
| "autoScrollStep (a, cmds) Resized = (if observing a then (onResize a, cmds) else (a, cmds))"
| "autoScrollStep (a, cmds) (TimerFired h target) =
     (if h \<in> set (timers a)
      then (a\<lparr>timers := removeAll h (timers a)\<rparr>,
            (case onTimer a target of None \<Rightarrow> cmds | Some pos \<Rightarrow> cmds @ [pos]))
      else (a, cmds))"
| "autoScrollStep (a, cmds) Unmounted = ((clearPending a)\<lparr>observing := False\<rparr>, cmds)"

definition autoScrollRun :: "autoScroll \<Rightarrow> scrollEvent list \<Rightarrow> autoScroll \<times> int list" where
  "autoScrollRun a evs = foldl autoScrollStep (a, []) evs"

section \<open>Predicates and reference functions used in the statements\<close>

text \<open>
  The active id is well formed when it is \<^verbatim>\<open>null\<close> or the id of a session of
  the list.
\<close>

definition activeValid :: "ChatState \<Rightarrow> bool" where
  "activeValid st = (activeSessionId st \<in> insert None (Some ` session_id ` set (sessions st)))"

text \<open>
  The specification's wording for the promotion on removal, "the session
  following it in the session list": the id of the successor of the first
  session with the given id, if there is one.
\<close>

fun followingSessionId :: "Session list \<Rightarrow> string \<Rightarrow> string option" where
  "followingSessionId [] sid = None"
| "followingSessionId (s # rest) sid =
     (if session_id s = sid
      then (case rest of [] \<Rightarrow> None | n # _ \<Rightarrow> Some (session_id n))
      else followingSessionId rest sid)"

text \<open>Concrete states for the examples.\<close>

definition mkSession :: "string \<Rightarrow> Session" where
  "mkSession sid = createNewSession None sid 0"

definition threeSessions :: ChatState where
  "threeSessions = \<lparr>sessions = [mkSession ''A'', mkSession ''B'', mkSession ''C''],
                     activeSessionId = Some ''B''\<rparr>"

definition headActive :: ChatState where
  "headActive = \<lparr>sessions = [mkSession ''A'', mkSession ''B'', mkSession ''C''],
                   activeSessionId = Some ''A''\<rparr>"

text \<open>The session id an action addresses, if it addresses one.\<close>

fun targetSession :: "action \<Rightarrow> string option" where
  "targetSession (BootstrapFirstSession nid now) = None"
| "targetSession (AddSession ttl nid now) = None"
| "targetSession (SwitchSession sid) = Some sid"
| "targetSession (RemoveSession sid) = Some sid"
| "targetSession (AddUserMessage sid txt imgs nid now1 now2) = Some sid"
| "targetSession (AddModelMessage sid txt imgs ty nid now1 now2) = Some sid"
| "targetSession (SetSessionMeta sid p now) = Some sid"
| "targetSession (SetSessionStatus sid now) = Some sid"
| "targetSession (ToggleTaggedImage sid p now) = Some sid"
| "targetSession (ClearTaggedImages sid now) = Some sid"
| "targetSession (SetSessionLoading sid b now) = Some sid"
| "targetSession (MarkMessageTyped sid mid) = Some sid"
| "targetSession (MarkMessageAnimated sid mid) = Some sid"

text \<open>A state with one session, which has a request outstanding and no message.\<close>

definition loadingState :: ChatState where
  "loadingState =
     \<lparr>sessions = [(mkSession ''s1'')\<lparr>loading := Some True\<rparr>], activeSessionId = Some ''s1''\<rparr>"

text \<open>The tag list of the session an id names, read with the store's own lookup.\<close>

definition sessionTags :: "ChatState \<Rightarrow> string \<Rightarrow> string list option" where
  "sessionTags st sid = map_option related_images (findSession st sid)"

text \<open>
  Two reachable states: one whose session carries the same tag twice, written by
  \<^verbatim>\<open>setSessionMeta\<close>, and one built by toggling two tags.
\<close>

definition dupTags :: ChatState where
  "dupTags = dispatchAll initialState
     [AddSession None ''s1'' 0,
      SetSessionMeta ''s1''
        \<lparr>meta_prev_context = None, meta_was_context_valid_old = None,
         meta_is_follow_up_old = None, meta_related_images = Some [''p'', ''p''],
         meta_title = None\<rparr> 1]"

definition twoTags :: ChatState where
  "twoTags = dispatchAll initialState
     [AddSession None ''s1'' 0, ToggleTaggedImage ''s1'' ''p'' 1, ToggleTaggedImage ''s1'' ''q'' 2]"

text \<open>
  How a message may differ after an action: not at all, or by \<^verbatim>\<open>typed\<close> having been
  set to \<^verbatim>\<open>true\<close>, or by \<^verbatim>\<open>animated\<close> having been set to \<^verbatim>\<open>true\<close>. A session keeps
  its messages when it has the same id and its earlier messages are still
  there, in order and at the same positions, each changed at most in this way
  (messages may have been appended after them).
\<close>

definition flagRaised :: "ChatMessage \<Rightarrow> ChatMessage \<Rightarrow> bool" where
  "flagRaised m m' = (m' = m \<or> m' = m\<lparr>typed := Some True\<rparr> \<or> m' = m\<lparr>animated := Some True\<rparr>)"

definition messagesKept :: "Session \<Rightarrow> Session \<Rightarrow> bool" where
  "messagesKept s s' =
     (session_id s' = session_id s
      \<and> list_all2 flagRaised (messages s) (take (length (messages s)) (messages s')))"

text \<open>The sessions an action does not delete: only \<^verbatim>\<open>removeSession\<close> deletes any.\<close>

fun survivors :: "action \<Rightarrow> Session list \<Rightarrow> Session list" where
  "survivors (RemoveSession sid) xs = filter (\<lambda>s. session_id s \<noteq> sid) xs"
| "survivors a xs = xs"

text \<open>One turn of a conversation, animated and settled.\<close>

definition typedStory :: ChatState where
  "typedStory = dispatchAll initialState
     [AddSession None ''s1'' 0,
      AddUserMessage ''s1'' ''hello'' None ''m1'' 1 1,
      AddModelMessage ''s1'' ''hi'' None (Some False) ''m2'' 2 2,
      MarkMessageAnimated ''s1'' ''m1'',
      MarkMessageTyped ''s1'' ''m2'']"

text \<open>
  The specification's wording for the resolution of a tag: the first image with
  the id, in the order of the session's messages and of the images within a
  message.
\<close>

definition firstImageWithPath :: "ChatMessage list \<Rightarrow> string \<Rightarrow> ChatImage option" where
  "firstImageWithPath ms p = find (\<lambda>img. path img = p) (concat (map imagesOf ms))"

text \<open>
  Two reachable states: a session with one tag that no message resolves, and a
  session whose messages carry images, two of them with the same path, tagged
  with two resolvable ids around an unresolvable one.
\<close>

definition ghostTag :: ChatState where
  "ghostTag = dispatchAll initialState
     [AddSession None ''s1'' 0, ToggleTaggedImage ''s1'' ''ghost'' 1]"

definition taggedChat :: ChatState where
  "taggedChat = dispatchAll initialState
     [AddSession None ''s1'' 0,
      AddModelMessage ''s1'' ''look''
        (Some [\<lparr>path = ''p1'', data = ''d1''\<rparr>, \<lparr>path = ''p2'', data = ''d2''\<rparr>])
        (Some True) ''m1'' 1 1,
      AddModelMessage ''s1'' ''more'' (Some [\<lparr>path = ''p1'', data = ''other''\<rparr>])
        (Some True) ''m2'' 2 2,
      ToggleTaggedImage ''s1'' ''p1'' 3, ToggleTaggedImage ''s1'' ''ghost'' 4,
      ToggleTaggedImage ''s1'' ''p2'' 5]"



text \<open>
  The scheduler has run to completion when it has neither a frame nor the
  settle timer pending.
\<close>

definition completed :: "reveal \<Rightarrow> bool" where
  "completed w = (\<not> frameRequested (ui w) \<and> \<not> settleTimer (ui w))"

text \<open>
  A schedule of frames \<open>(time, rnd)\<close> under which every delay has passed when its
  frame arrives: each frame comes at least 112.5 time units after the previous
  one (after the mount, for the first), and each \<open>rnd\<close> is a value
  \<^verbatim>\<open>Math.random()\<close> can return.
\<close>

fun paced :: "real \<Rightarrow> (real \<times> real) list \<Rightarrow> bool" where
  "paced t [] = True"
| "paced t ((time, rnd) # rest) = (time - t \<ge> 225 / 2 \<and> 0 \<le> rnd \<and> rnd < 1 \<and> paced time rest)"

definition frames :: "(real \<times> real) list \<Rightarrow> event list" where
  "frames ticks = map (\<lambda>(time, rnd). Frame time rnd) ticks"

text \<open>A model message as \<^verbatim>\<open>sendMessage\<close> creates it, without images.\<close>

definition hiMsg :: ChatMessage where
  "hiMsg = \<lparr>msg_id = ''m2'', role = Model, content = ''Hi.'', images = Some [],
            animated = None, typed = Some False, msg_createdAt = 2\<rparr>"

text \<open>
  The three phases of a run for a new message without images: revealing the
  text, awaiting the settle timer, and settled.
\<close>

definition awaiting :: "ChatMessage \<Rightarrow> reveal \<Rightarrow> bool" where
  "awaiting m w = (\<not> frameRequested (ui w) \<and> settleTimer (ui w) \<and> typedText (ui w) = content m
     \<and> isTypingComplete (ui w) \<and> dispatched w = [] \<and> \<not> dispatchedMark (ui w))"

definition revealing :: "reveal \<Rightarrow> bool" where
  "revealing w = (frameRequested (ui w) \<and> \<not> settleTimer (ui w) \<and> dispatched w = []
     \<and> \<not> dispatchedMark (ui w))"

definition settled :: "ChatMessage \<Rightarrow> string \<Rightarrow> reveal \<Rightarrow> bool" where
  "settled m sid w = (\<not> frameRequested (ui w) \<and> \<not> settleTimer (ui w) \<and> typedText (ui w) = content m
     \<and> dispatched w = [MarkMessageTyped sid (msg_id m)] \<and> dispatchedMark (ui w))"

text \<open>
  The guard flag and the dispatches agree: while the flag is clear nothing has
  been dispatched, and once it is set exactly one \<^verbatim>\<open>markMessageTyped\<close> for the
  message has been.
\<close>

definition guarded :: "ChatMessage \<Rightarrow> string \<Rightarrow> reveal \<Rightarrow> bool" where
  "guarded m sid w =
     (if dispatchedMark (ui w) then dispatched w = [MarkMessageTyped sid (msg_id m)]
      else dispatched w = [])"

text \<open>A new model message that carries an image.\<close>

definition picMsg :: ChatMessage where
  "picMsg = \<lparr>msg_id = ''m3'', role = Model, content = ''A'',
             images = Some [\<lparr>path = ''p1'', data = ''d1''\<rparr>],
             animated = None, typed = Some False, msg_createdAt = 3\<rparr>"

text \<open>
  At most one timer is pending, and it is the one whose handle the variable
  \<^verbatim>\<open>timeout\<close> holds.
\<close>

definition onePending :: "autoScroll \<Rightarrow> bool" where
  "onePending a =
     (0 < nextHandle a
      \<and> (case timers a of
            [] \<Rightarrow> True
          | [h] \<Rightarrow> 0 < h \<and> timeout a = Some h
          | _ \<Rightarrow> False))"

text \<open>A scroll container whose content overflows.\<close>

definition tallContent :: container where
  "tallContent = \<lparr>scrollHeight = 900, clientHeight = 400\<rparr>"

section \<open>Verified properties\<close>

subsection \<open>Lookups and in-place mutation\<close>

lemma session_ids_mutateFound:
  "(\<And>s. session_id (f s) = session_id s) \<Longrightarrow>
     map session_id (mutateFound P f xs) = map session_id xs"
  by (induction xs) auto

lemma onSession_ids:
  "(\<And>s. session_id (f s) = session_id s) \<Longrightarrow>
     map session_id (sessions (onSession st sid f)) = map session_id (sessions st)"
  by (simp add: onSession_def session_ids_mutateFound)

lemma onSession_active: "activeSessionId (onSession st sid f) = activeSessionId st"
  by (simp add: onSession_def)

lemma find_Some_id: "find (\<lambda>s. session_id s = sid) xs = Some y \<Longrightarrow> sid \<in> session_id ` set xs"
  by (induction xs) (auto split: if_splits)

lemma filter_head_find:
  "(case filter P xs of [] \<Rightarrow> None | y # _ \<Rightarrow> Some (f y)) = map_option f (find P xs)"
  by (induction xs) auto

subsection \<open>The active id always names a session\<close>

lemma activeValid_ids:
  "map session_id (sessions st') = map session_id (sessions st) \<Longrightarrow>
   activeSessionId st' = activeSessionId st \<Longrightarrow> activeValid st \<Longrightarrow> activeValid st'"
  unfolding activeValid_def by (metis list.set_map)

lemma activeValid_reducer:
  assumes inv: "activeValid st"
  shows "activeValid (reducer st a)"
proof (cases a)
  case (BootstrapFirstSession nid now)
  with inv show ?thesis by (simp add: bootstrapFirstSession_def activeValid_def Let_def)
next
  case (AddSession ttl nid now)
  then show ?thesis by (simp add: addSession_def activeValid_def Let_def)
next
  case (SwitchSession sid)
  with inv show ?thesis
    by (auto simp: switchSession_def findSession_def activeValid_def
        split: option.splits dest: find_Some_id)
next
  case (RemoveSession sid)
  let ?rest = "filter (\<lambda>s. session_id s \<noteq> sid) (sessions st)"
  have hd_in: "session_id y \<in> session_id ` set ?rest" if "?rest = y # ys" for y ys
    using that by (metis imageI list.set_intros(1))
  show ?thesis
  proof (cases "activeSessionId st = Some sid")
    case True
    with RemoveSession show ?thesis
      by (auto simp: removeSession_def activeValid_def Let_def split: list.splits dest!: hd_in)
  next
    case False
    with inv RemoveSession show ?thesis
      by (auto simp: removeSession_def activeValid_def Let_def)
  qed
qed (auto intro!: activeValid_ids[OF _ _ inv] onSession_ids onSession_active
   simp: addUserMessage_def addModelMessage_def setSessionMeta_def setSessionStatus_def
     toggleTaggedImage_def clearTaggedImages_def setSessionLoading_def markMessageTyped_def
     markMessageAnimated_def Let_def split: option.splits)

lemma activeValid_dispatchAll: "activeValid st \<Longrightarrow> activeValid (dispatchAll st acts)"
  unfolding dispatchAll_def by (induction acts arbitrary: st) (simp_all add: activeValid_reducer)

text \<open>
  Claim C10. In every state reached from the initial state by dispatching
  actions of the slice, the active id is \<^verbatim>\<open>null\<close> or the id of a session of the
  list. The reducers that write the active id do so as follows: \<^verbatim>\<open>addSession\<close>
  sets it to the id of the session it inserts; \<^verbatim>\<open>bootstrapFirstSession\<close> either
  leaves the state alone or produces the one-session state whose active id is
  that session's; \<^verbatim>\<open>switchSession\<close> writes the target id exactly when a session
  has it; \<^verbatim>\<open>removeSession\<close> either keeps the active id or re-points it to the
  id of a remaining session or to \<^verbatim>\<open>null\<close>.
\<close>

theorem active_session_valid:
  "activeValid (dispatchAll initialState acts)
   \<and> activeSessionId (addSession st ttl nid now) = Some nid
   \<and> nid \<in> session_id ` set (sessions (addSession st ttl nid now))
   \<and> (bootstrapFirstSession st nid now = st
        \<or> bootstrapFirstSession st nid now =
             \<lparr>sessions = [createNewSession (Some ''First Chat'') nid now],
              activeSessionId = Some nid\<rparr>)
   \<and> activeSessionId (switchSession st sid) =
        (if sid \<in> session_id ` set (sessions st) then Some sid else activeSessionId st)
   \<and> (activeSessionId (removeSession st sid) = activeSessionId st
        \<or> activeSessionId (removeSession st sid)
             \<in> insert None (Some ` session_id ` set (sessions (removeSession st sid))))"
proof -
  have "activeValid initialState" by (simp add: activeValid_def initialState_def)
  then have 1: "activeValid (dispatchAll initialState acts)" by (rule activeValid_dispatchAll)
  have 2: "activeSessionId (addSession st ttl nid now) = Some nid"
    "nid \<in> session_id ` set (sessions (addSession st ttl nid now))"
    by (simp_all add: addSession_def createNewSession_def)
  have 3: "bootstrapFirstSession st nid now = st
        \<or> bootstrapFirstSession st nid now =
             \<lparr>sessions = [createNewSession (Some ''First Chat'') nid now],
              activeSessionId = Some nid\<rparr>"
    by (simp add: bootstrapFirstSession_def createNewSession_def)
  have 4: "activeSessionId (switchSession st sid) =
        (if sid \<in> session_id ` set (sessions st) then Some sid else activeSessionId st)"
    by (auto simp: switchSession_def findSession_def find_None_iff
        split: option.splits dest: find_Some_id)
  have 5: "activeSessionId (removeSession st sid) = activeSessionId st
        \<or> activeSessionId (removeSession st sid)
             \<in> insert None (Some ` session_id ` set (sessions (removeSession st sid)))"
  proof (cases "filter (\<lambda>s. session_id s \<noteq> sid) (sessions st)")
    case Nil
    then show ?thesis by (simp add: removeSession_def Let_def)
  next
    case (Cons y ys)
    then have "session_id y \<in> session_id ` set (filter (\<lambda>s. session_id s \<noteq> sid) (sessions st))"
      by simp
    with Cons show ?thesis by (simp add: removeSession_def Let_def)
  qed
  from 1 2 3 4 5 show ?thesis by blast
qed

theorem active_session_valid_witness:
  "activeSessionId (dispatchAll initialState
      [AddSession None ''a'' 1, AddSession None ''b'' 2, SwitchSession ''a'', RemoveSession ''a''])
     = Some ''b''
   \<and> activeValid (dispatchAll initialState
      [AddSession None ''a'' 1, AddSession None ''b'' 2, SwitchSession ''a'', RemoveSession ''a''])"
  using active_session_valid
    [of "[AddSession None ''a'' 1, AddSession None ''b'' 2, SwitchSession ''a'', RemoveSession ''a'']"]
  by (simp add: dispatchAll_def initialState_def addSession_def createNewSession_def
      switchSession_def findSession_def removeSession_def)

subsection \<open>Promotion on removal\<close>

text \<open>
  Claim C4, as stated, at the list \<open>[A, B, C]\<close> with \<open>B\<close> active: the session
  following \<open>B\<close> is \<open>C\<close>, and removing \<open>B\<close> makes \<open>A\<close> active.
\<close>

theorem removeSession_next_in_order_counterexample:
  "activeSessionId threeSessions = Some ''B''
   \<and> followingSessionId (sessions threeSessions) ''B'' = Some ''C''
   \<and> activeSessionId (removeSession threeSessions ''B'') = Some ''A''"
  by (simp add: threeSessions_def mkSession_def createNewSession_def removeSession_def)

text \<open>
  Claim C4, amended. Removing the active session makes the first session that
  remains in the list active (the first session whose id differs from the
  removed one), or \<^verbatim>\<open>null\<close> if none remains; when the removed active session
  was the head of the list and the only one with its id, that session is the
  one that followed it. Removing a session that is not active leaves the
  active id unchanged.
\<close>

theorem removeSession_promotes_first_remaining:
  "activeSessionId (removeSession st sid) =
     (if activeSessionId st = Some sid
      then map_option session_id (find (\<lambda>s. session_id s \<noteq> sid) (sessions st))
      else activeSessionId st)
   \<and> (\<forall>a rest. sessions st = a # rest \<and> session_id a = sid \<and> sid \<notin> session_id ` set rest
          \<and> activeSessionId st = Some sid
        \<longrightarrow> activeSessionId (removeSession st sid) = followingSessionId (sessions st) sid)"
proof -
  have 1: "activeSessionId (removeSession st sid) =
     (if activeSessionId st = Some sid
      then map_option session_id (find (\<lambda>s. session_id s \<noteq> sid) (sessions st))
      else activeSessionId st)"
    by (simp add: removeSession_def Let_def filter_head_find)
  have 2: "activeSessionId (removeSession st sid) = followingSessionId (sessions st) sid"
    if "sessions st = a # rest" "session_id a = sid" "sid \<notin> session_id ` set rest"
       "activeSessionId st = Some sid" for a rest
  proof -
    have "filter (\<lambda>s. session_id s \<noteq> sid) rest = rest"
      using that(3) by (auto simp: filter_id_conv)
    with that show ?thesis by (simp add: removeSession_def Let_def)
  qed
  from 1 2 show ?thesis by blast
qed

theorem removeSession_promotes_first_remaining_witness:
  "activeSessionId (removeSession headActive ''A'') = Some ''B''
   \<and> activeSessionId (removeSession threeSessions ''B'') = Some ''A''
   \<and> activeSessionId (removeSession threeSessions ''C'') = Some ''B''
   \<and> activeSessionId
        (removeSession \<lparr>sessions = [mkSession ''A''], activeSessionId = Some ''A''\<rparr> ''A'') = None"
  using removeSession_promotes_first_remaining [of headActive "''A''"]
    removeSession_promotes_first_remaining [of threeSessions "''B''"]
    removeSession_promotes_first_remaining [of threeSessions "''C''"]
    removeSession_promotes_first_remaining
      [of "\<lparr>sessions = [mkSession ''A''], activeSessionId = Some ''A''\<rparr>" "''A''"]
  by (simp add: threeSessions_def headActive_def mkSession_def createNewSession_def)

subsection \<open>Lookup misses\<close>

lemma mutateFound_miss: "(\<And>x. x \<in> set xs \<Longrightarrow> \<not> P x) \<Longrightarrow> mutateFound P f xs = xs"
  by (induction xs) auto

lemma onSession_miss:
  assumes "sid \<notin> session_id ` set (sessions st)"
  shows "onSession st sid f = st"
proof -
  have "mutateFound (\<lambda>s. session_id s = sid) f (sessions st) = sessions st"
    by (rule mutateFound_miss) (use assms in auto)
  then show ?thesis by (simp add: onSession_def)
qed

lemma mutateFound_cong_found:
  "find P xs = Some x \<Longrightarrow> f x = g x \<Longrightarrow> mutateFound P f xs = mutateFound P g xs"
  by (induction xs) (auto split: if_splits)

lemma onSession_cong_found:
  "findSession st sid = Some s \<Longrightarrow> f s = g s \<Longrightarrow> onSession st sid f = onSession st sid g"
  unfolding onSession_def findSession_def by (simp add: mutateFound_cong_found[where f=f and g=g])

lemma mutateFound_id: "(\<And>x. x \<in> set xs \<Longrightarrow> P x \<Longrightarrow> f x = x) \<Longrightarrow> mutateFound P f xs = xs"
  by (induction xs) auto 

lemma onSession_id: "onSession st sid (\<lambda>s. s) = st"
  by (simp add: onSession_def mutateFound_id)

text \<open>
  Claim C5, amended. In a state whose active id is \<^verbatim>\<open>null\<close> or names a session
  of the list, every action that addresses a session id no session has leaves
  the state as it is. When the session exists and no message of it has the
  message id, \<^verbatim>\<open>markMessageAnimated\<close> leaves the state as it is, while
  \<^verbatim>\<open>markMessageTyped\<close> leaves the messages alone and sets \<^verbatim>\<open>loading\<close> of the
  session to \<^verbatim>\<open>false\<close>. The reducers are total functions of the state: none of
  them has a failing branch.
\<close>

theorem lookup_miss_noop:
  "(activeValid st \<and> targetSession a = Some sid \<and> sid \<notin> session_id ` set (sessions st)
      \<longrightarrow> reducer st a = st)
   \<and> (findSession st sid = Some s \<and> mid \<notin> msg_id ` set (messages s)
      \<longrightarrow> markMessageAnimated st sid mid = st
        \<and> markMessageTyped st sid mid = onSession st sid (\<lambda>s. s\<lparr>loading := Some False\<rparr>))"
proof -
  have 1: "reducer st a = st"
    if "activeValid st" "targetSession a = Some sid" "sid \<notin> session_id ` set (sessions st)"
  proof (cases a)
    case (SwitchSession x)
    with that show ?thesis
      by (auto simp: switchSession_def findSession_def split: option.splits dest: find_Some_id)
  next
    case (RemoveSession x)
    with that have "activeSessionId st \<noteq> Some sid" "x = sid"
      by (auto simp: activeValid_def)
    moreover have "filter (\<lambda>s. session_id s \<noteq> sid) (sessions st) = sessions st"
      using that(3) by (auto simp: filter_id_conv)
    ultimately show ?thesis using RemoveSession by (simp add: removeSession_def Let_def)
  qed (use that in \<open>simp_all add: onSession_miss addUserMessage_def addModelMessage_def
     setSessionMeta_def setSessionStatus_def toggleTaggedImage_def clearTaggedImages_def
     setSessionLoading_def markMessageTyped_def markMessageAnimated_def\<close>)
  have 2: "markMessageAnimated st sid mid = st"
    "markMessageTyped st sid mid = onSession st sid (\<lambda>s. s\<lparr>loading := Some False\<rparr>)"
    if f: "findSession st sid = Some s" and m: "mid \<notin> msg_id ` set (messages s)"
  proof -
    have keep: "mutateFound (\<lambda>m. msg_id m = mid) g (messages s) = messages s" for g
      by (rule mutateFound_miss) (use m in auto)
    have "markMessageAnimated st sid mid = onSession st sid (\<lambda>s. s)"
      unfolding markMessageAnimated_def by (rule onSession_cong_found[OF f]) (simp add: keep)
    then show "markMessageAnimated st sid mid = st" by (simp add: onSession_id)
    show "markMessageTyped st sid mid = onSession st sid (\<lambda>s. s\<lparr>loading := Some False\<rparr>)"
      unfolding markMessageTyped_def by (rule onSession_cong_found[OF f]) (simp add: keep)
  qed
  from 1 2 show ?thesis by blast
qed

text \<open>
  Claim C5, as stated, at a session with a request outstanding and no message:
  \<^verbatim>\<open>markMessageTyped\<close> with a message id the session does not have changes the
  state, since it clears \<^verbatim>\<open>loading\<close>.
\<close>

theorem markMessageTyped_miss_counterexample:
  "map session_id (sessions loadingState) = [''s1'']
   \<and> map messages (sessions loadingState) = [ [] ]
   \<and> map loading (sessions loadingState) = [Some True]
   \<and> map loading (sessions (reducer loadingState (MarkMessageTyped ''s1'' ''m0''))) = [Some False]"
  by (simp add: loadingState_def mkSession_def createNewSession_def markMessageTyped_def onSession_def)

theorem lookup_miss_noop_witness:
  "reducer loadingState (RemoveSession ''zz'') = loadingState
   \<and> reducer loadingState (AddUserMessage ''zz'' ''hi'' None ''m1'' 1 2) = loadingState
   \<and> markMessageAnimated loadingState ''s1'' ''m0'' = loadingState
   \<and> map loading (sessions (markMessageTyped loadingState ''s1'' ''m0'')) = [Some False]"
  using lookup_miss_noop [of loadingState "RemoveSession ''zz''" "''zz''"]
    lookup_miss_noop [of loadingState "AddUserMessage ''zz'' ''hi'' None ''m1'' 1 2" "''zz''"]
    lookup_miss_noop
      [of loadingState _ "''s1''" "(mkSession ''s1'')\<lparr>loading := Some True\<rparr>" "''m0''"]
  by (simp add: loadingState_def mkSession_def createNewSession_def activeValid_def
      findSession_def onSession_def)

subsection \<open>Tags\<close>

lemma find_mutateFound:
  "(\<And>x. P (f x) = P x) \<Longrightarrow> find P (mutateFound P f xs) = map_option f (find P xs)"
  by (induction xs) auto

lemma findSession_onSession:
  "(\<And>s. session_id (f s) = session_id s) \<Longrightarrow>
     findSession (onSession st sid f) sid = map_option f (findSession st sid)"
  by (simp add: findSession_def onSession_def find_mutateFound)

lemma toggle_twice_tags:
  assumes "distinct xs"
  shows "set (let ys = (if p \<in> set xs then remove1 p xs else xs @ [p])
              in if p \<in> set ys then remove1 p ys else ys @ [p]) = set xs"
  using assms by (auto simp: Let_def remove1_append)

lemma sessionTags_toggle:
  "sessionTags (toggleTaggedImage st sid p now) sid =
     map_option (\<lambda>xs. if p \<in> set xs then remove1 p xs else xs @ [p]) (sessionTags st sid)"
  unfolding sessionTags_def toggleTaggedImage_def
  by (subst findSession_onSession) (auto simp: option.map_comp comp_def intro!: option.map_cong)

lemma sessionTags_clear:
  "sessionTags (clearTaggedImages st sid now) sid = map_option (\<lambda>_. []) (sessionTags st sid)"
  unfolding sessionTags_def clearTaggedImages_def
  by (subst findSession_onSession) (auto simp: option.map_comp comp_def)

text \<open>
  Claim C6, amended. For a session whose tag list has no duplicate entry,
  toggling the same image id twice gives back the same set of tags (the order
  of the list may differ), and a toggle keeps the list free of duplicates;
  \<^verbatim>\<open>clearTaggedImages\<close> leaves the tag list of the session empty whatever it
  was before.
\<close>

theorem tag_round_trip:
  "((\<forall>xs. sessionTags st sid = Some xs \<longrightarrow> distinct xs) \<longrightarrow>
     map_option set
       (sessionTags (toggleTaggedImage (toggleTaggedImage st sid p now1) sid p now2) sid)
       = map_option set (sessionTags st sid)
     \<and> (\<forall>ys. sessionTags (toggleTaggedImage st sid p now1) sid = Some ys \<longrightarrow> distinct ys))
   \<and> sessionTags (clearTaggedImages st sid now) sid = map_option (\<lambda>_. []) (sessionTags st sid)"
proof (cases "sessionTags st sid")
  case None
  then show ?thesis by (simp add: sessionTags_toggle sessionTags_clear)
next
  case (Some xs)
  have "distinct xs \<Longrightarrow> set (let ys = (if p \<in> set xs then remove1 p xs else xs @ [p])
              in if p \<in> set ys then remove1 p ys else ys @ [p]) = set xs"
    by (rule toggle_twice_tags)
  with Some show ?thesis
    by (simp add: sessionTags_toggle sessionTags_clear Let_def)
qed

text \<open>
  Claim C6, as stated, at a session whose tag list holds \<open>p\<close> twice: each toggle
  deletes one occurrence, and the set of tags goes from \<open>{p}\<close> to empty.
\<close>

theorem tag_round_trip_duplicates_counterexample:
  "sessionTags dupTags ''s1'' = Some [''p'', ''p'']
   \<and> sessionTags
        (toggleTaggedImage (toggleTaggedImage dupTags ''s1'' ''p'' 2) ''s1'' ''p'' 3) ''s1''
       = Some []"
  by (simp add: dupTags_def dispatchAll_def initialState_def addSession_def createNewSession_def
      setSessionMeta_def toggleTaggedImage_def onSession_def sessionTags_def findSession_def)

theorem tag_round_trip_witness:
  "sessionTags twoTags ''s1'' = Some [''p'', ''q'']
   \<and> map_option set
        (sessionTags
          (toggleTaggedImage (toggleTaggedImage twoTags ''s1'' ''p'' 3) ''s1'' ''p'' 4) ''s1'')
       = Some {''p'', ''q''}
   \<and> sessionTags (clearTaggedImages twoTags ''s1'' 5) ''s1'' = Some []"
  using tag_round_trip [of twoTags "''s1''" "''p''" 3 4 5]
  by (simp add: twoTags_def dispatchAll_def initialState_def addSession_def createNewSession_def
      toggleTaggedImage_def onSession_def sessionTags_def findSession_def)

subsection \<open>The settlement flags only rise\<close>

lemma flagRaised_refl: "flagRaised m m"
  by (simp add: flagRaised_def)

lemma list_all2_flagRaised_refl: "list_all2 flagRaised ms ms"
  by (simp add: list_all2_refl flagRaised_refl)

lemma messagesKept_refl: "messagesKept s s"
  by (simp add: messagesKept_def list_all2_flagRaised_refl)

lemma flagRaised_mutateFound:
  "(\<And>m. flagRaised m (f m)) \<Longrightarrow> list_all2 flagRaised ms (mutateFound P f ms)"
  by (induction ms) (auto simp: list_all2_flagRaised_refl flagRaised_refl)

lemma messagesKept_mutateFound:
  "(\<And>s. messagesKept s (f s)) \<Longrightarrow> list_all2 messagesKept xs (mutateFound P f xs)"
  by (induction xs) (auto simp: list_all2_refl messagesKept_refl)

lemma messagesKept_onSession:
  "(\<And>s. messagesKept s (f s)) \<Longrightarrow>
     list_all2 messagesKept (sessions st) (sessions (onSession st sid f))"
  by (simp add: onSession_def messagesKept_mutateFound)

lemma length_mutateFound [simp]: "length (mutateFound P f xs) = length xs"
  by (induction xs) auto

lemma kept_markMessageTyped:
  "list_all2 messagesKept (sessions st) (sessions (markMessageTyped st sid mid))"
  unfolding markMessageTyped_def
  by (intro messagesKept_onSession)
     (simp add: messagesKept_def, rule flagRaised_mutateFound, simp add: flagRaised_def)

lemma kept_markMessageAnimated:
  "list_all2 messagesKept (sessions st) (sessions (markMessageAnimated st sid mid))"
  unfolding markMessageAnimated_def
  by (intro messagesKept_onSession)
     (simp add: messagesKept_def, rule flagRaised_mutateFound, simp add: flagRaised_def)

lemma kept_append:
  "(\<And>s. session_id (f s) = session_id s \<and> (\<exists>ms. messages (f s) = messages s @ ms)) \<Longrightarrow>
     list_all2 messagesKept (sessions st) (sessions (onSession st sid f))"
proof (rule messagesKept_onSession)
  fix s
  assume h: "\<And>s. session_id (f s) = session_id s \<and> (\<exists>ms. messages (f s) = messages s @ ms)"
  from h[of s] obtain ms where "session_id (f s) = session_id s" "messages (f s) = messages s @ ms"
    by blast
  then show "messagesKept s (f s)"
    by (simp add: messagesKept_def list_all2_flagRaised_refl)
qed

lemma kept_intro:
  assumes "ys = pre @ kept @ post" "list_all2 messagesKept xs kept"
    "list_all (\<lambda>s. messages s = []) (pre @ post)"
  shows "\<exists>pre kept post. ys = pre @ kept @ post \<and> list_all2 messagesKept xs kept
           \<and> list_all (\<lambda>s. messages s = []) (pre @ post)"
  using assms by blast

lemma kept_same:
  "list_all2 messagesKept xs ys \<Longrightarrow>
     \<exists>pre kept post. ys = pre @ kept @ post \<and> list_all2 messagesKept xs kept
           \<and> list_all (\<lambda>s. messages s = []) (pre @ post)"
  by (rule kept_intro[of _ "[]" ys "[]"]) simp_all

lemma flagRaised_keeps_true:
  "flagRaised m m' \<Longrightarrow>
     (typed m = Some True \<longrightarrow> typed m' = Some True)
     \<and> (animated m = Some True \<longrightarrow> animated m' = Some True)
     \<and> msg_id m' = msg_id m \<and> role m' = role m \<and> content m' = content m"
  by (auto simp: flagRaised_def)

text \<open>
  Claim C2. After any action of the slice the session list consists of the
  sessions the action did not delete, in their order, possibly with newly
  created sessions (which have no message) before or after them; and every
  message of a surviving session is still at its position in that session,
  unchanged or changed only in that \<^verbatim>\<open>typed\<close> or \<^verbatim>\<open>animated\<close> has been set to
  \<^verbatim>\<open>true\<close>. So no action resets either flag, and a flag that is \<^verbatim>\<open>true\<close> stays
  \<^verbatim>\<open>true\<close> for as long as its message exists: it goes from \<^verbatim>\<open>false\<close> to \<^verbatim>\<open>true\<close> at
  most once.
\<close>

theorem settlement_flags_monotonic:
  "\<exists>pre kept post.
      sessions (reducer st a) = pre @ kept @ post
      \<and> list_all2 messagesKept (survivors a (sessions st)) kept
      \<and> list_all (\<lambda>s. messages s = []) (pre @ post)"
proof (cases a)
  case (RemoveSession sid)
  then show ?thesis
    by (intro kept_same) (simp add: removeSession_def Let_def list_all2_refl messagesKept_refl)
next
  case (AddSession ttl nid now)
  then show ?thesis
    by (intro kept_intro[of _ "[createNewSession ttl nid now]" "sessions st" "[]"])
       (simp_all add: addSession_def createNewSession_def list_all2_refl messagesKept_refl)
next
  case (BootstrapFirstSession nid now)
  show ?thesis
  proof (cases "bootstrapFirstSession st nid now = st")
    case True
    with BootstrapFirstSession show ?thesis
      by (intro kept_same) (simp add: list_all2_refl messagesKept_refl)
  next
    case False
    with BootstrapFirstSession show ?thesis
      by (intro kept_intro
            [of _ "[]" "sessions st" "[createNewSession (Some ''First Chat'') nid now]"])
         (auto simp: bootstrapFirstSession_def createNewSession_def list_all2_refl messagesKept_refl
            split: if_splits)
  qed
next
  case (SwitchSession sid)
  then show ?thesis
    by (intro kept_same)
       (simp add: switchSession_def list_all2_refl messagesKept_refl split: option.splits)
next
  case (MarkMessageTyped sid mid)
  then show ?thesis by (intro kept_same) (simp add: kept_markMessageTyped)
next
  case (MarkMessageAnimated sid mid)
  then show ?thesis by (intro kept_same) (simp add: kept_markMessageAnimated)
next
  case (AddUserMessage sid body imgs nid now1 now2)
  then show ?thesis
    by (intro kept_same) (simp add: addUserMessage_def kept_append Let_def)
next
  case (AddModelMessage sid body imgs ty nid now1 now2)
  then show ?thesis
    by (intro kept_same) (simp add: addModelMessage_def kept_append Let_def)
next
  case (SetSessionMeta sid p now)
  then show ?thesis
    by (intro kept_same) (simp add: setSessionMeta_def kept_append Let_def split: option.splits)
next
  case (SetSessionStatus sid now)
  then show ?thesis by (intro kept_same) (simp add: setSessionStatus_def kept_append)
next
  case (ToggleTaggedImage sid p now)
  then show ?thesis by (intro kept_same) (simp add: toggleTaggedImage_def kept_append)
next
  case (ClearTaggedImages sid now)
  then show ?thesis by (intro kept_same) (simp add: clearTaggedImages_def kept_append)
next
  case (SetSessionLoading sid b now)
  then show ?thesis by (intro kept_same) (simp add: setSessionLoading_def kept_append)
qed

theorem settlement_flags_monotonic_witness:
  "map (\<lambda>s. map (\<lambda>m. (typed m, animated m)) (messages s)) (sessions typedStory)
     = [ [(None, Some True), (Some True, None)] ]
   \<and> map (\<lambda>s. map (\<lambda>m. (typed m, animated m)) (messages s))
        (sessions (reducer typedStory (AddModelMessage ''s1'' ''again'' None (Some False) ''m2'' 3 3)))
     = [ [(None, Some True), (Some True, None), (Some False, None)] ]
   \<and> map (\<lambda>s. map (\<lambda>m. (typed m, animated m)) (messages s))
        (sessions (reducer typedStory (AddSession None ''s2'' 4)))
     = [ [], [(None, Some True), (Some True, None)] ]"
  using settlement_flags_monotonic
      [of typedStory "AddModelMessage ''s1'' ''again'' None (Some False) ''m2'' 3 3"]
    settlement_flags_monotonic [of typedStory "AddSession None ''s2'' 4"]
  by (simp add: typedStory_def dispatchAll_def initialState_def addSession_def
      createNewSession_def addUserMessage_def addModelMessage_def markMessageAnimated_def
      markMessageTyped_def onSession_def)

subsection \<open>Sending\<close>

lemma find_append_first: "find P (xs @ ys) = (case find P xs of None \<Rightarrow> find P ys | Some x \<Rightarrow> Some x)"
  by (induction xs) auto

lemma resolveTag_first:
  "resolveTag ms p =
     (case firstImageWithPath ms p of None \<Rightarrow> \<lparr>path = [], data = []\<rparr> | Some found \<Rightarrow> found)"
proof (induction ms)
  case Nil
  then show ?case by (simp add: firstImageWithPath_def)
next
  case (Cons m ms)
  then show ?case
    by (auto simp: firstImageWithPath_def imagesOf_def find_append_first
        split: option.splits list.splits)
qed

lemma firstImageWithPath_path: "firstImageWithPath ms p = Some i \<Longrightarrow> path i = p"
  unfolding firstImageWithPath_def by (auto simp: find_Some_iff)

lemma userImages_resolved:
  "userImages s =
     List.map_filter (\<lambda>p. if p = [] then None else firstImageWithPath (messages s) p)
       (related_images s)"
proof -
  have eq: "map (\<lambda>it. \<lparr>path = path it, data = data it\<rparr>)
          (filter (\<lambda>it. path it \<noteq> []) (map (resolveTag ms) tags))
        = List.map_filter (\<lambda>p. if p = [] then None else firstImageWithPath ms p) tags" for ms tags
  proof (induction tags)
    case Nil
    then show ?case by (simp)
  next
    case (Cons p tags)
    then show ?case
      by (cases "firstImageWithPath ms p")
         (auto simp: resolveTag_first dest: firstImageWithPath_path)
  qed
  show ?thesis
  proof (cases "related_images s = []")
    case True
    then show ?thesis by (simp add: userImages_def)
  next
    case False
    then have "userImages s = map (\<lambda>it. \<lparr>path = path it, data = data it\<rparr>)
          (filter (\<lambda>it. path it \<noteq> []) (map (resolveTag (messages s)) (related_images s)))"
      by (simp add: userImages_def)
    also note eq
    finally show ?thesis .
  qed
qed

lemma sendMessage_accepted:
  assumes f: "findSession chat sid = Some s" and l: "loading s \<noteq> Some True"
  shows "findSession (fst (sendMessage chat store sid body nid t1 t2 t3 t4)) sid =
           map_option
             (\<lambda>s'. s'\<lparr>loading := Some True, related_images := [],
                     messages := messages s' @
                       [\<lparr>msg_id = nid, role = User, content = body,
                         images = Some (userImages s),
                         animated = Some False, typed = None, msg_createdAt = t3\<rparr>],
                     updatedAt := t4\<rparr>)
             (findSession store sid)"
    and "snd (sendMessage chat store sid body nid t1 t2 t3 t4) =
           Some \<lparr>req_prev_context = prev_context s,
                 req_message_history = map (\<lambda>m. (role m, content m)) (messages s),
                 req_query = body,
                 req_was_context_valid_old = was_context_valid_old s,
                 req_is_follow_up_old = is_follow_up_old s,
                 req_related_images = related_images s\<rparr>"
  using f l
  by (simp_all add: sendMessage_def Let_def setSessionLoading_def clearTaggedImages_def
      addUserMessage_def findSession_onSession option.map_comp comp_def)

text \<open>
  What the guard does give. A send from a render that shows the session
  loading, or that has no such session, dispatches nothing and posts nothing,
  whatever the store holds; and when the component has rendered since the
  first send, so that the closure reads the store itself, a second send to the
  session is rejected.
\<close>

lemma sendMessage_guard:
  "findSession chat sid = None \<or> (\<exists>s. findSession chat sid = Some s \<and> loading s = Some True)
     \<Longrightarrow> sendMessage chat store sid body nid t1 t2 t3 t4 = (store, None)"
  by (auto simp: sendMessage_def)

lemma second_send_after_render:
  "sendMessage (fst (sendMessage chat chat sid body nid t1 t2 t3 t4))
       (fst (sendMessage chat chat sid body nid t1 t2 t3 t4)) sid body' nid' u1 u2 u3 u4
     = (fst (sendMessage chat chat sid body nid t1 t2 t3 t4), None)"
proof -
  let ?st = "fst (sendMessage chat chat sid body nid t1 t2 t3 t4)"
  show ?thesis
  proof (cases "findSession chat sid")
    case None
    then have "?st = chat" by (simp add: sendMessage_guard)
    with None show ?thesis by (simp add: sendMessage_guard)
  next
    case (Some s)
    show ?thesis
    proof (cases "loading s = Some True")
      case True
      with Some have "?st = chat" by (simp add: sendMessage_guard)
      with Some True show ?thesis by (simp add: sendMessage_guard)
    next
      case False
      from sendMessage_accepted(1)[OF Some False, of chat] Some
      show ?thesis by (intro sendMessage_guard) simp
    qed
  qed
qed


text \<open>
  Claim C7, as stated, at a session tagged with an id that no message of it
  resolves: the request still carries the id in \<^verbatim>\<open>related_images\<close>.
\<close>

theorem unresolved_tag_sent_counterexample:
  "sessionTags ghostTag ''s1'' = Some [''ghost'']
   \<and> map messages (sessions ghostTag) = [ [] ]
   \<and> map_option req_related_images
        (snd (sendMessage ghostTag ghostTag ''s1'' ''q'' ''m1'' 2 3 4 5))
       = Some [''ghost'']"
  by (simp add: ghostTag_def dispatchAll_def initialState_def addSession_def createNewSession_def
      toggleTaggedImage_def onSession_def sendMessage_def findSession_def sessionTags_def)

text \<open>
  Claim C7, amended. An accepted send posts the whole tag list of the session
  as \<^verbatim>\<open>related_images\<close>, unresolved ids included. The user message it appends
  carries, for every tag in order, the first image with that id found by
  scanning the session's messages in order; a tag that no image resolves, and
  the empty tag, contribute no image, and nothing fails. Tags and messages are
  those of the render the send was issued from; the message is appended to
  the session of the store, which is the same session when the render is up
  to date.
\<close>

theorem tags_resolved_at_send:
  "findSession chat sid = Some s \<and> loading s \<noteq> Some True \<longrightarrow>
     map_option req_related_images (snd (sendMessage chat store sid body nid t1 t2 t3 t4))
       = Some (related_images s)
     \<and> map_option messages (findSession (fst (sendMessage chat chat sid body nid t1 t2 t3 t4)) sid)
       = Some (messages s @
           [\<lparr>msg_id = nid, role = User, content = body,
             images = Some (List.map_filter
                (\<lambda>p. if p = [] then None else firstImageWithPath (messages s) p)
                (related_images s)),
             animated = Some False, typed = None, msg_createdAt = t3\<rparr>])
     \<and> map_option messages
          (findSession (fst (sendMessage chat store sid body nid t1 t2 t3 t4)) sid)
       = map_option
           (\<lambda>s'. messages s' @
             [\<lparr>msg_id = nid, role = User, content = body,
               images = Some (List.map_filter
                  (\<lambda>p. if p = [] then None else firstImageWithPath (messages s) p)
                  (related_images s)),
               animated = Some False, typed = None, msg_createdAt = t3\<rparr>])
           (findSession store sid)"
  by (auto simp: sendMessage_accepted userImages_resolved option.map_comp comp_def)

theorem tags_resolved_at_send_witness:
  "map_option loading (findSession taggedChat ''s1'') = Some None
   \<and> map_option related_images (findSession taggedChat ''s1'') = Some [''p1'', ''ghost'', ''p2'']
   \<and> map_option req_related_images
        (snd (sendMessage taggedChat taggedChat ''s1'' ''q'' ''m3'' 6 7 8 9))
       = Some [''p1'', ''ghost'', ''p2'']
   \<and> map_option (\<lambda>ms. images (last ms))
        (map_option messages
           (findSession (fst (sendMessage taggedChat taggedChat ''s1'' ''q'' ''m3'' 6 7 8 9))
              ''s1''))
       = Some (Some [\<lparr>path = ''p1'', data = ''d1''\<rparr>, \<lparr>path = ''p2'', data = ''d2''\<rparr>])"
proof -
  let ?s = "the (findSession taggedChat ''s1'')"
  have f: "findSession taggedChat ''s1'' = Some ?s"
    by (simp add: taggedChat_def dispatchAll_def initialState_def addSession_def
        createNewSession_def toggleTaggedImage_def addModelMessage_def onSession_def
        findSession_def)
  have l: "loading ?s = None" "related_images ?s = [''p1'', ''ghost'', ''p2'']"
    "messages ?s =
       [\<lparr>msg_id = ''m1'', role = Model, content = ''look'',
          images = Some [\<lparr>path = ''p1'', data = ''d1''\<rparr>, \<lparr>path = ''p2'', data = ''d2''\<rparr>],
          animated = None, typed = Some True, msg_createdAt = 1\<rparr>,
        \<lparr>msg_id = ''m2'', role = Model, content = ''more'',
          images = Some [\<lparr>path = ''p1'', data = ''other''\<rparr>],
          animated = None, typed = Some True, msg_createdAt = 2\<rparr>]"
    by (simp_all add: taggedChat_def dispatchAll_def initialState_def addSession_def
        createNewSession_def toggleTaggedImage_def addModelMessage_def onSession_def
        findSession_def)
  from tags_resolved_at_send
         [of taggedChat "''s1''" ?s taggedChat "''q''" "''m3''" 6 7 8 9] f l
  show ?thesis
    by (auto simp: firstImageWithPath_def imagesOf_def List.map_filter_def)
qed

subsection \<open>Pacing of the reveal\<close>

lemma baseDelay_cases:
  "baseDelay c = 100 \<or> baseDelay c = 40 \<or> baseDelay c = 8 \<or> baseDelay c = 60 \<or> baseDelay c = 12"
  by (simp add: baseDelay_def)

lemma baseDelay_pos: "0 < baseDelay c"
  using baseDelay_cases[of c] by auto

lemma baseDelay_le: "baseDelay c \<le> 100"
  using baseDelay_cases[of c] by auto

lemma dynamicDelay_bound:
  assumes "0 \<le> rnd" "rnd < 1"
  shows "\<bar>dynamicDelay c rnd - baseDelay c\<bar> \<le> baseDelay c / 8"
proof -
  have "\<bar>b + (rnd - 0.5) * b * 0.25 - b\<bar> \<le> b / 8"
    if "b = 100 \<or> b = 40 \<or> b = 8 \<or> b = 60 \<or> b = 12" for b :: real
    using that assms by (elim disjE) (simp_all add: abs_le_iff)
  from this[OF baseDelay_cases] show ?thesis by (simp add: dynamicDelay_def)
qed

lemma charAt_last:
  assumes "0 < k" "k \<le> length s"
  shows "charAt s (int k - 1) = Some (last (take k s))"
proof -
  from assms have "take k s \<noteq> []" by auto
  then have "last (take k s) = take k s ! (k - 1)"
    using assms by (simp add: last_conv_nth min_def)
  also have "\<dots> = s ! (k - 1)" using assms by simp
  finally show ?thesis using assms by (simp add: charAt_def nat_diff_distrib')
qed

text \<open>
  Claim C8. The delay before the perturbation is 100 after \<open>.\<close>, \<open>!\<close> and \<open>?\<close>, 40
  after a comma or a semicolon, 8 after a space, 60 after a newline and 12
  after any other character; the delay used differs from it by at most an
  eighth of it, for every value \<^verbatim>\<open>Math.random()\<close> can return; the character that
  selects the delay is the last character of the text revealed so far; and a
  call of \<^verbatim>\<open>step\<close> advances the cursor by exactly one when the time since the
  last advance has reached the delay, and leaves it where it is otherwise.
\<close>

theorem reveal_pacing:
  "baseDelay (Some CHR ''.'') = 100 \<and> baseDelay (Some CHR ''!'') = 100
   \<and> baseDelay (Some CHR ''?'') = 100
   \<and> baseDelay (Some CHR '','') = 40 \<and> baseDelay (Some CHR '';'') = 40
   \<and> baseDelay (Some CHR '' '') = 8 \<and> baseDelay (Some (CHR 0x0A)) = 60
   \<and> (c \<notin> {CHR ''.'', CHR ''!'', CHR ''?'', CHR '','', CHR '';'', CHR '' '', CHR 0x0A}
        \<longrightarrow> baseDelay (Some c) = 12)
   \<and> (0 \<le> rnd \<and> rnd < 1 \<longrightarrow> \<bar>dynamicDelay cc rnd - baseDelay cc\<bar> \<le> baseDelay cc / 8)
   \<and> (0 < charIndex ty \<and> charIndex ty \<le> length (content m) \<longrightarrow>
        charAt (content m) (int (charIndex ty) - 1) = Some (last (take (charIndex ty) (content m))))
   \<and> charIndex (step m ty time rnd) =
        (if time - prevTime ty \<ge> dynamicDelay (charAt (content m) (int (charIndex ty) - 1)) rnd
         then charIndex ty + 1 else charIndex ty)"
proof -
  have 1: "baseDelay (Some CHR ''.'') = 100 \<and> baseDelay (Some CHR ''!'') = 100
   \<and> baseDelay (Some CHR ''?'') = 100
   \<and> baseDelay (Some CHR '','') = 40 \<and> baseDelay (Some CHR '';'') = 40
   \<and> baseDelay (Some CHR '' '') = 8 \<and> baseDelay (Some (CHR 0x0A)) = 60"
    by (simp add: baseDelay_def)
  have 2: "c \<notin> {CHR ''.'', CHR ''!'', CHR ''?'', CHR '','', CHR '';'', CHR '' '', CHR 0x0A}
        \<longrightarrow> baseDelay (Some c) = 12"
    by (simp add: baseDelay_def)
  have 3: "charIndex (step m ty time rnd) =
        (if time - prevTime ty \<ge> dynamicDelay (charAt (content m) (int (charIndex ty) - 1)) rnd
         then charIndex ty + 1 else charIndex ty)"
    by (simp add: step_def Let_def)
  from 1 2 3 dynamicDelay_bound[of rnd cc] charAt_last[of "charIndex ty" "content m"]
  show ?thesis by blast
qed

theorem reveal_pacing_witness:
  "baseDelay (Some CHR ''a'') = 12
   \<and> dynamicDelay (Some CHR ''.'') (3 / 4) = 425 / 4
   \<and> \<bar>dynamicDelay (Some CHR ''.'') (3 / 4) - 100\<bar> \<le> 100 / 8
   \<and> charAt ''Hi.'' (int (charIndex (step hiMsg (mount hiMsg 0) 20 (3 / 4))) - 1) = Some CHR ''H''
   \<and> charIndex (step hiMsg (mount hiMsg 0) 20 (3 / 4)) = 1
   \<and> charIndex (step hiMsg (mount hiMsg 0) 5 (3 / 4)) = 0"
  using reveal_pacing [of "CHR ''a''" "3 / 4" "Some CHR ''.''" "mount hiMsg 0" hiMsg 20]
    reveal_pacing [of "CHR ''a''" "3 / 4" "Some CHR ''.''" "mount hiMsg 0" hiMsg 5]
    reveal_pacing [of "CHR ''a''" "3 / 4" "Some CHR ''.''"
      "step hiMsg (mount hiMsg 0) 20 (3 / 4)" hiMsg 30]
  by (simp add: hiMsg_def mount_def isNew_def step_def Let_def dynamicDelay_def baseDelay_def
      charAt_def)

subsection \<open>Completion of the reveal\<close>

lemma dynamicDelay_le:
  assumes "0 \<le> rnd" "rnd < 1"
  shows "dynamicDelay c rnd \<le> 225 / 2"
proof -
  have "b + (rnd - 0.5) * b * 0.25 \<le> 225 / 2"
    if "b = 100 \<or> b = 40 \<or> b = 8 \<or> b = 60 \<or> b = 12" for b :: real
    using that assms by (elim disjE) simp_all
  from this[OF baseDelay_cases] show ?thesis by (simp add: dynamicDelay_def)
qed

lemma runEvents_Nil [simp]: "runEvents m sid w [] = w"
  by (simp add: runEvents_def)

lemma runEvents_Cons [simp]: "runEvents m sid w (e # evs) = runEvents m sid (handle m sid w e) evs"
  by (simp add: runEvents_def)

lemma runEvents_append: "runEvents m sid w (xs @ ys) = runEvents m sid (runEvents m sid w xs) ys"
  by (simp add: runEvents_def)

lemma frames_ignored:
  "\<not> frameRequested (ui w) \<Longrightarrow> runEvents m sid w (frames ticks) = w"
  by (induction ticks) (auto simp: frames_def)

text \<open>What a paced frame does: the delay has passed, so the cursor advances.\<close>

lemma step_paced:
  assumes "time - prevTime ty \<ge> 225 / 2" "0 \<le> rnd" "rnd < 1"
  shows "step m ty time rnd =
     (if charIndex ty + 1 < length (content m)
      then ty\<lparr>charIndex := charIndex ty + 1, typedText := take (charIndex ty + 1) (content m),
              prevTime := time, frameRequested := True\<rparr>
      else ty\<lparr>charIndex := charIndex ty + 1, typedText := content m,
              prevTime := time, isTypingComplete := True,
              frameRequested := False, settleTimer := True\<rparr>)"
proof -
  have "dynamicDelay (charAt (content m) (int (charIndex ty) - 1)) rnd \<le> time - prevTime ty"
    using dynamicDelay_le[OF assms(2,3)] assms(1) by (rule order_trans)
  then show ?thesis by (simp add: step_def Let_def)
qed

lemma frames_finish:
  assumes "revealing w" "paced (prevTime (ui w)) ticks"
    "max 1 (length (content m) - charIndex (ui w)) \<le> length ticks"
  shows "awaiting m (runEvents m sid w (frames ticks))"
  using assms
proof (induction ticks arbitrary: w)
  case Nil
  then show ?case by simp
next
  case (Cons tick ticks)
  obtain time rnd where tick: "tick = (time, rnd)" by (cases tick)
  from Cons.prems tick have p: "time - prevTime (ui w) \<ge> 225 / 2" "0 \<le> rnd" "rnd < 1"
    "paced time ticks" by simp_all
  let ?w = "handle m sid w (Frame time rnd)"
  have h: "?w = w\<lparr>ui := step m (ui w) time rnd\<rparr>"
    using Cons.prems(1) by (simp add: revealing_def)
  show ?case
  proof (cases "charIndex (ui w) + 1 < length (content m)")
    case True
    have "revealing ?w" "prevTime (ui ?w) = time" "charIndex (ui ?w) = charIndex (ui w) + 1"
      using Cons.prems(1) True by (simp_all add: h step_paced[OF p(1-3)] revealing_def)
    moreover have "max 1 (length (content m) - charIndex (ui ?w)) \<le> length ticks"
      using Cons.prems(3) True \<open>charIndex (ui ?w) = charIndex (ui w) + 1\<close> by simp
    ultimately have "awaiting m (runEvents m sid ?w (frames ticks))"
      using p(4) by (intro Cons.IH) simp_all
    then show ?thesis by (simp add: frames_def tick)
  next
    case False
    have a: "awaiting m ?w"
      using Cons.prems(1) False by (simp add: h step_paced[OF p(1-3)] revealing_def awaiting_def)
    then have "runEvents m sid ?w (frames ticks) = ?w"
      by (intro frames_ignored) (simp add: awaiting_def)
    with a show ?thesis by (simp add: frames_def tick)
  qed
qed

lemma phase_handle:
  assumes "imagesOf m = []"
    and "revealing w \<or> awaiting m w \<or> settled m sid w"
  shows "revealing (handle m sid w e) \<or> awaiting m (handle m sid w e)
         \<or> settled m sid (handle m sid w e)"
proof (cases e)
  case (Frame time rnd)
  with assms(2) show ?thesis
    by (auto simp: revealing_def awaiting_def settled_def step_def Let_def)
next
  case (SettleTimeout b)
  with assms show ?thesis
    by (auto simp: revealing_def awaiting_def settled_def settleCallback_def effects_def)
next
  case AnimationComplete
  with assms show ?thesis by (simp add: imagesAnimating_def)
qed

lemma phase_run:
  assumes "imagesOf m = []"
    and "revealing w \<or> awaiting m w \<or> settled m sid w"
  shows "revealing (runEvents m sid w evs) \<or> awaiting m (runEvents m sid w evs)
         \<or> settled m sid (runEvents m sid w evs)"
  using assms(2)
proof (induction evs arbitrary: w)
  case Nil
  then show ?case by simp
next
  case (Cons e evs)
  from phase_handle[OF assms(1) Cons.prems] show ?case by (simp add: Cons.IH)
qed

lemma mount_revealing: "isNew m \<Longrightarrow> revealing (mountReveal m now)"
  by (simp add: mountReveal_def mount_def revealing_def)

lemma guarded_handle: "guarded m sid w \<Longrightarrow> guarded m sid (handle m sid w e)"
  by (cases e)
     (auto simp: guarded_def step_def Let_def settleCallback_def onAnimationComplete_def
        effects_def split: if_splits)

lemma guarded_run: "guarded m sid w \<Longrightarrow> guarded m sid (runEvents m sid w evs)"
  by (induction evs arbitrary: w) (simp_all add: guarded_handle)

lemma guarded_mount: "guarded m sid (mountReveal m now)"
  by (simp add: guarded_def mountReveal_def mount_def)

lemma dispatched_at_most_once:
  "length (dispatched (runEvents m sid (mountReveal m now) evs)) \<le> 1"
  using guarded_run[OF guarded_mount, of m sid now evs]
  by (auto simp: guarded_def split: if_splits)

text \<open>
  Claim C3. For a new model message without images, mounted at time \<open>now\<close>:
  under a paced schedule with at least as many frames as the content has
  characters (and at least one) the scheduler runs to completion once the
  settle timer has fired; whenever a run of the scheduler, under any sequence
  of frames, timer firings and animation ends, has reached completion, the
  visible text is the whole content and \<^verbatim>\<open>markMessageTyped\<close> has been dispatched
  exactly once, for this message. The guard is one-shot for every message,
  with or without images: once the flag is set, the handler of the animation
  end and the settle callback of a message without images dispatch nothing and
  change nothing, and no run ever dispatches more than once.
\<close>

theorem reveal_completeness:
  assumes "isNew m" and "imagesOf m = []"
  shows "(paced now ticks \<and> max 1 (length (content m)) \<le> length ticks \<longrightarrow>
            completed (runEvents m sid (mountReveal m now)
                         (frames ticks @ [SettleTimeout atBottom])))
         \<and> (\<forall>evs. completed (runEvents m sid (mountReveal m now) evs) \<longrightarrow>
               typedText (ui (runEvents m sid (mountReveal m now) evs)) = content m
               \<and> dispatched (runEvents m sid (mountReveal m now) evs)
                   = [MarkMessageTyped sid (msg_id m)])
         \<and> (\<forall>m' ty. dispatchedMark ty \<longrightarrow>
               onAnimationComplete m' sid ty = (ty, [], False)
               \<and> (imagesOf m' = [] \<longrightarrow> settleCallback m' sid atBottom ty = (ty, [], False)))
         \<and> (\<forall>m' now' evs. length (dispatched (runEvents m' sid (mountReveal m' now') evs)) \<le> 1)"
proof -
  let ?w0 = "mountReveal m now"
  have r0: "revealing ?w0" using assms(1) by (rule mount_revealing)
  have 1: "completed (runEvents m sid ?w0 (frames ticks @ [SettleTimeout atBottom]))"
    if "paced now ticks" "max 1 (length (content m)) \<le> length ticks"
  proof -
    have "awaiting m (runEvents m sid ?w0 (frames ticks))"
      using r0 that by (intro frames_finish) (simp_all add: mountReveal_def mount_def assms(1))
    then show ?thesis
      using assms(2)
      by (simp add: runEvents_append awaiting_def completed_def settleCallback_def effects_def)
  qed
  have 2: "typedText (ui (runEvents m sid ?w0 evs)) = content m
           \<and> dispatched (runEvents m sid ?w0 evs) = [MarkMessageTyped sid (msg_id m)]"
    if "completed (runEvents m sid ?w0 evs)" for evs
    using phase_run[OF assms(2), of ?w0 sid evs] r0 that
    by (auto simp: completed_def revealing_def awaiting_def settled_def)
  have 3: "onAnimationComplete m' sid ty = (ty, [], False)
           \<and> (imagesOf m' = [] \<longrightarrow> settleCallback m' sid atBottom ty = (ty, [], False))"
    if "dispatchedMark ty" for m' ty
    using that by (simp add: onAnimationComplete_def settleCallback_def)
  from 1 2 3 dispatched_at_most_once show ?thesis by blast
qed

lemma hiMsg_new: "isNew hiMsg \<and> imagesOf hiMsg = []"
  by (simp add: hiMsg_def isNew_def imagesOf_def)

theorem reveal_completeness_witness:
  "isNew hiMsg \<and> imagesOf hiMsg = []
   \<and> paced 0 [(120, 1/2), (240, 1/2), (360, 1/2)]
   \<and> completed (runEvents hiMsg ''s1'' (mountReveal hiMsg 0)
        (frames [(120, 1/2), (240, 1/2), (360, 1/2)] @ [SettleTimeout True]))
   \<and> typedText (ui (runEvents hiMsg ''s1'' (mountReveal hiMsg 0)
        (frames [(120, 1/2), (240, 1/2), (360, 1/2)] @ [SettleTimeout True]))) = ''Hi.''
   \<and> dispatched (runEvents hiMsg ''s1'' (mountReveal hiMsg 0)
        (frames [(120, 1/2), (240, 1/2), (360, 1/2)] @ [SettleTimeout True]))
       = [MarkMessageTyped ''s1'' ''m2'']
   \<and> dispatchedMark (ui (runEvents hiMsg ''s1'' (mountReveal hiMsg 0)
        (frames [(120, 1/2), (240, 1/2), (360, 1/2)] @ [SettleTimeout True])))
   \<and> dispatched (runEvents hiMsg ''s1'' (mountReveal hiMsg 0)
        (frames [(120, 1/2), (240, 1/2), (360, 1/2)]
           @ [SettleTimeout True, AnimationComplete, SettleTimeout True, Frame 480 (1/2)]))
       = [MarkMessageTyped ''s1'' ''m2'']
   \<and> dispatched (runEvents picMsg ''s1'' (mountReveal picMsg 0)
        [Frame 120 (1/2), SettleTimeout True, AnimationComplete, AnimationComplete,
         SettleTimeout False])
       = [MarkMessageTyped ''s1'' ''m3'']"
proof -
  let ?ticks = "[(120::real, 1/2::real), (240, 1/2), (360, 1/2)]"
  have p: "paced 0 ?ticks" by simp
  have l: "max 1 (length (content hiMsg)) \<le> length ?ticks"
    by (simp add: hiMsg_def)
  have c: "content hiMsg = ''Hi.''" "msg_id hiMsg = ''m2''" by (simp_all add: hiMsg_def)
  have d: "dispatchedMark (ui (runEvents hiMsg ''s1'' (mountReveal hiMsg 0)
             (frames ?ticks @ [SettleTimeout True])))"
    "completed (runEvents hiMsg ''s1'' (mountReveal hiMsg 0)
       (frames ?ticks @ [SettleTimeout True, AnimationComplete, SettleTimeout True,
          Frame 480 (1/2)]))"
    by (simp_all add: frames_def hiMsg_def mountReveal_def mount_def isNew_def step_def Let_def
        dynamicDelay_def baseDelay_def charAt_def settleCallback_def effects_def imagesOf_def
        imagesAnimating_def completed_def)
  have e: "dispatched (runEvents picMsg ''s1'' (mountReveal picMsg 0)
        [Frame 120 (1/2), SettleTimeout True, AnimationComplete, AnimationComplete,
         SettleTimeout False])
       = [MarkMessageTyped ''s1'' ''m3'']"
    by (simp add: picMsg_def mountReveal_def mount_def isNew_def step_def Let_def
        dynamicDelay_def baseDelay_def charAt_def settleCallback_def effects_def imagesOf_def
        imagesAnimating_def onAnimationComplete_def)
  from reveal_completeness
         [OF conjunct1[OF hiMsg_new] conjunct2[OF hiMsg_new], of 0 ?ticks "''s1''" True]
       p l hiMsg_new c d e
  show ?thesis by (auto simp del: paced.simps runEvents_Cons)
qed

subsection \<open>Auto-follow\<close>

lemma onePending_iff:
  "onePending a \<longleftrightarrow>
     0 < nextHandle a \<and> (timers a = [] \<or> (\<exists>h. 0 < h \<and> timers a = [h] \<and> timeout a = Some h))"
  by (auto simp: onePending_def split: list.splits)

lemma onePending_mount: "onePending (mountAutoScroll enabled hasElement)"
  by (simp add: onePending_iff mountAutoScroll_def)

lemma clearPending_empty: "onePending a \<Longrightarrow> timers (clearPending a) = []"
  by (auto simp: onePending_iff clearPending_def split: option.splits)

lemma clearPending_fields:
  "nextHandle (clearPending a) = nextHandle a" "enabledRef (clearPending a) = enabledRef a"
  by (simp_all add: clearPending_def split: option.splits)

lemma onResize_enabled:
  "onePending a \<Longrightarrow> enabledRef a \<Longrightarrow>
     timers (onResize a) = [nextHandle a] \<and> timeout (onResize a) = Some (nextHandle a)
     \<and> nextHandle (onResize a) = nextHandle a + 1"
  by (simp add: onResize_def Let_def clearPending_empty clearPending_fields)

lemma onePending_step:
  assumes "onePending (fst w)"
  shows "onePending (fst (autoScrollStep w e))"
proof (cases w)
  case (Pair a cmds)
  with assms have a: "onePending a" by simp
  show ?thesis
  proof (cases e)
    case (EnabledChanged b)
    with Pair a show ?thesis by (simp add: onePending_iff)
  next
    case Resized
    show ?thesis
    proof (cases "enabledRef a")
      case True
      from onResize_enabled[OF a True] a Pair Resized show ?thesis
        by (simp add: onePending_iff)
    next
      case False
      with a Pair Resized show ?thesis by (simp add: onResize_def)
    qed
  next
    case (TimerFired h target)
    with Pair a show ?thesis by (auto simp: onePending_iff)
  next
    case Unmounted
    with Pair a show ?thesis
      by (simp add: onePending_iff clearPending_empty[OF a] clearPending_fields)
  qed
qed

lemma onePending_run: "onePending (fst (autoScrollRun (mountAutoScroll enabled hasElement) evs))"
proof -
  have "onePending (fst (foldl autoScrollStep w evs))" if "onePending (fst w)" for w
    using that by (induction evs arbitrary: w) (simp_all add: onePending_step)
  from this[of "(mountAutoScroll enabled hasElement, [])"] show ?thesis
    by (simp add: autoScrollRun_def onePending_mount)
qed

text \<open>
  Claim C9. In every state a mounted hook reaches: if the enabled flag is false
  when a timer fires, no scroll command is issued, whatever the flag was when
  the timer was scheduled; a size-change notification either does nothing or
  schedules a timer, and when it schedules one, that timer is the only one
  pending afterwards, so any timer that was pending has been cancelled; a
  notification schedules a timer whenever the flag is true and the observer is
  connected; and at no time is more than one timer pending.
\<close>

theorem auto_follow_suppression:
  "(\<not> enabledRef (fst (autoScrollRun (mountAutoScroll enabled hasElement) evs)) \<longrightarrow>
      snd (autoScrollStep (autoScrollRun (mountAutoScroll enabled hasElement) evs)
             (TimerFired h target))
        = snd (autoScrollRun (mountAutoScroll enabled hasElement) evs))
   \<and> (autoScrollStep (autoScrollRun (mountAutoScroll enabled hasElement) evs) Resized
        = autoScrollRun (mountAutoScroll enabled hasElement) evs
      \<or> timers (fst (autoScrollStep (autoScrollRun (mountAutoScroll enabled hasElement) evs)
                        Resized))
          = [nextHandle (fst (autoScrollRun (mountAutoScroll enabled hasElement) evs))]
        \<and> nextHandle (fst (autoScrollStep (autoScrollRun (mountAutoScroll enabled hasElement) evs)
                              Resized))
          = nextHandle (fst (autoScrollRun (mountAutoScroll enabled hasElement) evs)) + 1)
   \<and> (enabledRef (fst (autoScrollRun (mountAutoScroll enabled hasElement) evs))
       \<and> observing (fst (autoScrollRun (mountAutoScroll enabled hasElement) evs)) \<longrightarrow>
      timers (fst (autoScrollStep (autoScrollRun (mountAutoScroll enabled hasElement) evs)
                     Resized))
        = [nextHandle (fst (autoScrollRun (mountAutoScroll enabled hasElement) evs))])
   \<and> length (timers (fst (autoScrollRun (mountAutoScroll enabled hasElement) evs))) \<le> 1"
proof -
  obtain a cmds where w: "autoScrollRun (mountAutoScroll enabled hasElement) evs = (a, cmds)"
    by (cases "autoScrollRun (mountAutoScroll enabled hasElement) evs")
  from onePending_run[of enabled hasElement evs] w have a: "onePending a" by simp
  have 1: "\<not> enabledRef a \<longrightarrow> snd (autoScrollStep (a, cmds) (TimerFired h target)) = cmds"
    by (simp add: onTimer_def)
  have 2: "enabledRef a \<and> observing a \<longrightarrow>
             timers (fst (autoScrollStep (a, cmds) Resized)) = [nextHandle a]"
    using onResize_enabled[OF a] by simp
  have 3: "autoScrollStep (a, cmds) Resized = (a, cmds)
           \<or> timers (fst (autoScrollStep (a, cmds) Resized)) = [nextHandle a]
             \<and> nextHandle (fst (autoScrollStep (a, cmds) Resized)) = nextHandle a + 1"
  proof (cases "enabledRef a \<and> observing a")
    case True
    with onResize_enabled[OF a] show ?thesis by simp
  next
    case False
    then show ?thesis by (auto simp: onResize_def)
  qed
  have 4: "length (timers a) \<le> 1" using a by (auto simp: onePending_iff)
  from 1 2 3 4 show ?thesis by (simp add: w)
qed

theorem auto_follow_suppression_witness:
  "autoScrollRun (mountAutoScroll True True) [Resized, Resized, EnabledChanged False]
     = (\<lparr>enabledRef = False, timeout = Some 2, observing = True, timers = [2],
         nextHandle = 3\<rparr>, [])
   \<and> snd (autoScrollRun (mountAutoScroll True True)
            [Resized, Resized, EnabledChanged False, TimerFired 2 (Some tallContent)]) = []
   \<and> snd (autoScrollRun (mountAutoScroll True True)
            [Resized, Resized, TimerFired 1 (Some tallContent), TimerFired 2 (Some tallContent)])
       = [900]"
  using auto_follow_suppression
      [of True True "[Resized, Resized, EnabledChanged False]" 2 "Some tallContent"]
    auto_follow_suppression [of True True "[Resized]" 1 "Some tallContent"]
  by (simp add: autoScrollRun_def mountAutoScroll_def onResize_def clearPending_def Let_def
      onTimer_def scrollIntoView_def tallContent_def)

subsection \<open>The example states are reachable\<close>

lemma threeSessions_reachable:
  "threeSessions = dispatchAll initialState
     [AddSession None ''C'' 0, AddSession None ''B'' 0, AddSession None ''A'' 0,
      SwitchSession ''B'']"
  by (simp add: threeSessions_def mkSession_def dispatchAll_def initialState_def addSession_def
      switchSession_def findSession_def createNewSession_def)

lemma headActive_reachable:
  "headActive = dispatchAll initialState
     [AddSession None ''C'' 0, AddSession None ''B'' 0, AddSession None ''A'' 0]"
  by (simp add: headActive_def mkSession_def dispatchAll_def initialState_def addSession_def
      createNewSession_def)

lemma loadingState_reachable:
  "loadingState = dispatchAll initialState
     [AddSession None ''s1'' 0, SetSessionLoading ''s1'' True 0]"
  by (simp add: loadingState_def mkSession_def dispatchAll_def initialState_def addSession_def
      setSessionLoading_def onSession_def createNewSession_def)

end
